theory Spec2Isabelle
  imports Main "HOL-Library.Word" "HOL-Library.Multiset" "HOL-Library.Sublist"
begin

section \<open>Data model\<close>

text \<open>
  A Go \<^verbatim>\<open>[]byte\<close> is a list of 8-bit words, a \<^verbatim>\<open>uint16\<close> a 16-bit word. Go's
  \<^verbatim>\<open>int\<close> is modelled by \<^typ>\<open>int\<close>: the code only compares and copies its
  \<^verbatim>\<open>int\<close> values and never does arithmetic on them that could overflow. A compiled
  \<^verbatim>\<open>*regexp.Regexp\<close> is a value of a type parameter \<open>'re\<close>: the code under
  study stores such values and never looks inside them.
\<close>

type_synonym byte = "8 word"
type_synonym uint16 = "16 word"

section \<open>Command-line arguments and configuration (package util)\<close>

record TimingFlag =
  Value :: string
  IsSet :: bool

record Args =
  Addr :: string
  Port :: uint16
  DnsAddr :: string
  DnsPort :: uint16
  DnsIPv4Only :: bool
  EnableDoh :: bool
  Debug :: bool
  Silent :: bool
  SystemProxy :: bool
  Timeout :: uint16
  AllowedPattern :: "string list"
  WindowSize :: uint16
  Version :: bool
  RandomTiming :: TimingFlag

record 're Config =
  Addr :: string
  Port :: int
  DnsAddr :: string
  DnsPort :: int
  DnsIPv4Only :: bool
  EnableDoh :: bool
  Debug :: bool
  Silent :: bool
  SystemProxy :: bool
  Timeout :: int
  WindowSize :: int
  AllowedPatterns :: "'re list"
  TimingRandomization :: bool
  TimingDelayMin :: uint16
  TimingDelayMax :: uint16

text \<open>
  \<^verbatim>\<open>regexp.MustCompile\<close> belongs to Go's library: it is the parameter \<open>compile\<close>,
  which answers \<open>None\<close> for a pattern that is no regular expression. There
  \<^verbatim>\<open>MustCompile\<close> panics, and the panic leaves \<^verbatim>\<open>parseAllowedPattern\<close> and
  \<^verbatim>\<open>Load\<close> at once.
\<close>

datatype panic = RegexpMustCompile string

text \<open>
  \<^verbatim>\<open>parseAllowedPattern\<close>: the \<^verbatim>\<open>range\<close> loop over the patterns, with the slice
  \<^verbatim>\<open>allowedPatterns\<close> it appends to (\<^verbatim>\<open>nil\<close> at the start).
\<close>

fun parseAllowedPatternLoop ::
  "(string \<Rightarrow> 're option) \<Rightarrow> 're list \<Rightarrow> string list \<Rightarrow> panic + 're list" where
  "parseAllowedPatternLoop compile allowedPatterns [] = Inr allowedPatterns"
| "parseAllowedPatternLoop compile allowedPatterns (pattern # patterns) =
     (case compile pattern of
        None \<Rightarrow> Inl (RegexpMustCompile pattern)
      | Some re \<Rightarrow> parseAllowedPatternLoop compile (allowedPatterns @ [re]) patterns)"

definition parseAllowedPattern ::
  "(string \<Rightarrow> 're option) \<Rightarrow> string list \<Rightarrow> panic + 're list" where
  "parseAllowedPattern compile patterns = parseAllowedPatternLoop compile [] patterns"

text \<open>
  \<^verbatim>\<open>(c *Config) Load(args)\<close>: the assignments in the order of the source; the updated
  configuration is returned. \<^verbatim>\<open>int(x)\<close> of a \<^verbatim>\<open>uint16\<close> is \<open>uint x\<close>. The
  \<^verbatim>\<open>switch\<close> on the preset is the chain of comparisons it abbreviates.
\<close>

definition Load ::
  "(string \<Rightarrow> 're option) \<Rightarrow> 're Config \<Rightarrow> Args \<Rightarrow> panic + 're Config" where
  "Load compile c args =
     (let c = c\<lparr>Config.Addr := Args.Addr args\<rparr>;
          c = c\<lparr>Config.Port := uint (Args.Port args)\<rparr>;
          c = c\<lparr>Config.DnsAddr := Args.DnsAddr args\<rparr>;
          c = c\<lparr>Config.DnsPort := uint (Args.DnsPort args)\<rparr>;
          c = c\<lparr>Config.DnsIPv4Only := Args.DnsIPv4Only args\<rparr>;
          c = c\<lparr>Config.Debug := Args.Debug args\<rparr>;
          c = c\<lparr>Config.EnableDoh := Args.EnableDoh args\<rparr>;
          c = c\<lparr>Config.Silent := Args.Silent args\<rparr>;
          c = c\<lparr>Config.SystemProxy := Args.SystemProxy args\<rparr>;
          c = c\<lparr>Config.Timeout := uint (Args.Timeout args)\<rparr>
      in case parseAllowedPattern compile (Args.AllowedPattern args) of
           Inl p \<Rightarrow> Inl p
         | Inr allowedPatterns \<Rightarrow>
             (let c = c\<lparr>Config.AllowedPatterns := allowedPatterns\<rparr>;
                  c = c\<lparr>Config.WindowSize := uint (Args.WindowSize args)\<rparr>
              in if IsSet (Args.RandomTiming args) then
                   (let c = c\<lparr>Config.TimingRandomization := True\<rparr>;
                        preset = Value (Args.RandomTiming args);
                        preset = (if preset = '''' then ''short'' else preset)
                    in if preset = ''short'' then
                         Inr (c\<lparr>Config.TimingDelayMin := 5, Config.TimingDelayMax := 25\<rparr>)
                       else if preset = ''medium'' then
                         Inr (c\<lparr>Config.TimingDelayMin := 25, Config.TimingDelayMax := 50\<rparr>)
                       else if preset = ''long'' then
                         Inr (c\<lparr>Config.TimingDelayMin := 50, Config.TimingDelayMax := 100\<rparr>)
                       else
                         Inr (c\<lparr>Config.TimingDelayMin := 5, Config.TimingDelayMax := 25\<rparr>))
                 else
                   Inr (c\<lparr>Config.TimingRandomization := False, Config.TimingDelayMin := 0,
                         Config.TimingDelayMax := 0\<rparr>)))"

section \<open>The HTTPS handler and its configuration (proxy/handler/https.go)\<close>

record 're HttpsHandlerConfig =
  Timeout :: int
  WindowSize :: int
  AllowedPatterns :: "'re list"
  Exploit :: bool
  TimingRandomization :: bool
  TimingDelayMin :: uint16
  TimingDelayMax :: uint16

definition DefaultHttpsHandlerConfig :: "'re HttpsHandlerConfig" where
  "DefaultHttpsHandlerConfig =
     \<lparr>Timeout = 0, WindowSize = 0, AllowedPatterns = [], Exploit = True,
      TimingRandomization = False, TimingDelayMin = 5, TimingDelayMax = 50\<rparr>"

text \<open>\<^verbatim>\<open>Validate\<close>: \<open>None\<close> is \<^verbatim>\<open>nil\<close>, \<open>Some msg\<close> is \<^verbatim>\<open>errors.New(msg)\<close>.\<close>

definition Validate :: "'re HttpsHandlerConfig \<Rightarrow> string option" where
  "Validate c =
     (if Timeout c < 0 then Some ''timeout cannot be negative''
      else if WindowSize c < 0 then Some ''window size cannot be negative''
      else if TimingRandomization c \<and> TimingDelayMin c > TimingDelayMax c then
        Some ''timing delay min cannot be greater than max''
      else None)"

record 're HttpsHandler =
  bufferSize :: int
  protocol :: string
  port :: int
  config :: "'re HttpsHandlerConfig"

text \<open>
  A \<^verbatim>\<open>HttpsHandlerOption\<close> is a \<^verbatim>\<open>func(*HttpsHandlerConfig)\<close>: here a function from
  the configuration to the configuration it leaves behind.
\<close>

type_synonym 're HttpsHandlerOption = "'re HttpsHandlerConfig \<Rightarrow> 're HttpsHandlerConfig"

definition WithTimeout :: "int \<Rightarrow> 're HttpsHandlerOption" where
  "WithTimeout timeout c = c\<lparr>Timeout := timeout\<rparr>"

definition WithWindowSize :: "int \<Rightarrow> 're HttpsHandlerOption" where
  "WithWindowSize sz c = c\<lparr>WindowSize := sz\<rparr>"

definition WithAllowedPatterns :: "'re list \<Rightarrow> 're HttpsHandlerOption" where
  "WithAllowedPatterns patterns c = c\<lparr>AllowedPatterns := patterns\<rparr>"

definition WithExploit :: "bool \<Rightarrow> 're HttpsHandlerOption" where
  "WithExploit exploit c = c\<lparr>Exploit := exploit\<rparr>"

definition WithTimingRandomization :: "uint16 \<Rightarrow> uint16 \<Rightarrow> 're HttpsHandlerOption" where
  "WithTimingRandomization mn mx c =
     c\<lparr>TimingRandomization := True, TimingDelayMin := mn, TimingDelayMax := mx\<rparr>"

definition WithoutTimingRandomization :: "'re HttpsHandlerOption" where
  "WithoutTimingRandomization c = c\<lparr>TimingRandomization := False\<rparr>"

text \<open>
  \<^verbatim>\<open>NewHttpsHandler(opts...)\<close>: \<open>applyOptions\<close> is its \<^verbatim>\<open>range\<close> loop, which runs
  the options in order on the default configuration.
\<close>

definition applyOptions :: "'re HttpsHandlerOption list \<Rightarrow> 're HttpsHandlerConfig" where
  "applyOptions opts = foldl (\<lambda>config opt. opt config) DefaultHttpsHandlerConfig opts"

definition NewHttpsHandler :: "'re HttpsHandlerOption list \<Rightarrow> 're HttpsHandler" where
  "NewHttpsHandler opts =
     (let config = applyOptions opts;
          config = (if Validate config \<noteq> None then DefaultHttpsHandlerConfig else config)
      in \<lparr>bufferSize = 1024, protocol = ''HTTPS'', port = 443, config = config\<rparr>)"

section \<open>The chunker: \<^verbatim>\<open>splitInChunks\<close> (proxy/handler/https.go)\<close>

text \<open>
  The \<^verbatim>\<open>for\<close> loop of \<^verbatim>\<open>splitInChunks\<close>, entered when \<^verbatim>\<open>size > 0\<close>. Its state is
  the three variables the loop assigns: \<^verbatim>\<open>chunks\<close>, \<^verbatim>\<open>raw\<close> and \<^verbatim>\<open>size\<close> (the
  loop lowers \<^verbatim>\<open>size\<close> to \<^verbatim>\<open>len(raw)\<close> for the last chunk). The loop is not
  structurally recursive and, read on its own, runs forever when \<^verbatim>\<open>size\<close> is 0, so
  it is a partial function: \<open>None\<close> means that the loop does not return.
\<close>

partial_function (option) chunkLoop ::
  "byte list list \<Rightarrow> byte list \<Rightarrow> int \<Rightarrow> byte list list option" where
  "chunkLoop chunks raw sz =
     (if length raw = 0 then Some chunks
      else (let sz' = (if int (length raw) < sz then int (length raw) else sz)
            in chunkLoop (chunks @ [take (nat sz') raw]) (drop (nat sz') raw) sz'))"

text \<open>
  \<^verbatim>\<open>splitInChunks(ctx, bytes, size)\<close>. The logger calls have no effect on the result.
  \<^verbatim>\<open>raw[:1]\<close> and \<^verbatim>\<open>raw[1:]\<close> are only evaluated when \<^verbatim>\<open>len(raw) >= 1\<close>, where
  they are \<open>take 1\<close> and \<open>drop 1\<close>.
\<close>

definition splitInChunks :: "byte list \<Rightarrow> int \<Rightarrow> byte list list option" where
  "splitInChunks bytes sz =
     (if sz > 0 then chunkLoop [] bytes sz
      else if length bytes < 1 then Some [bytes]
      else Some [take 1 bytes, drop 1 bytes])"

section \<open>Effects of the handler\<close>

text \<open>
  The handler works on two connections, the client's (\<^verbatim>\<open>lConn\<close>) and the upstream one
  (\<^verbatim>\<open>rConn\<close>). A run is described by the list of the calls it makes, in the order it
  makes them. A log call is recorded with its format string, a \<^verbatim>\<open>Write\<close> with the
  bytes it is given, a \<^verbatim>\<open>go h.communicate(ctx, from, to, ...)\<close> statement with its two
  connections, a \<^verbatim>\<open>time.Sleep\<close> with its duration in milliseconds.
\<close>

datatype conn = lConn | rConn

datatype event =
    LogDebug string
  | DialTCP string int
  | Close conn
  | Write conn "byte list"
  | ReadTLSMessage conn
  | Go_communicate conn conn
  | Sleep nat
  | SetConnectionTimeout conn int
  | ReadBytes conn

text \<open>
  \<^verbatim>\<open>packet.HttpRequest\<close> and \<^verbatim>\<open>packet.TLSMessage\<close> are declared outside the files
  under study; the handler reads the request through \<^verbatim>\<open>Domain()\<close>, \<^verbatim>\<open>Port()\<close> and
  \<^verbatim>\<open>Version()\<close>, and the message through \<^verbatim>\<open>Raw\<close> and \<^verbatim>\<open>IsClientHello()\<close>. They
  are records of exactly these values.
\<close>

record HttpRequest =
  Domain :: string
  Port :: string
  Version :: string

record TLSMessage =
  Raw :: "byte list"
  IsClientHello :: bool

text \<open>
  \<^verbatim>\<open>strconv.Atoi\<close> of Go's library, for a 64-bit \<^verbatim>\<open>int\<close>: an optional sign, then
  decimal digits. \<open>digitsValue\<close> is the digit loop (that of \<^verbatim>\<open>ParseUint\<close>, which the
  fast path of \<^verbatim>\<open>Atoi\<close> agrees with on strings too short to overflow): it stops with
  a syntax error at the first character that is no digit, and with a range error as
  soon as the number read so far leaves 64 bits, whatever follows. \<^verbatim>\<open>Atoi\<close> returns 0
  with a syntax error and the nearest bound of \<^verbatim>\<open>int\<close> with a range error;
  \<^verbatim>\<open>Serve\<close> assigns the returned number to \<^verbatim>\<open>h.port\<close> in both cases.
\<close>

datatype NumError = ErrSyntax | ErrRange

fun digitsValue :: "int \<Rightarrow> string \<Rightarrow> int \<times> NumError option" where
  "digitsValue n [] = (n, None)"
| "digitsValue n (ch # s) =
     (if ch \<notin> set ''0123456789'' then (0, Some ErrSyntax)
      else if n \<ge> (2 ^ 64 - 1) div 10 + 1 then (2 ^ 64 - 1, Some ErrRange)
      else if n * 10 + (of_char ch - 48) > 2 ^ 64 - 1 then (2 ^ 64 - 1, Some ErrRange)
      else digitsValue (n * 10 + (of_char ch - 48)) s)"

definition Atoi :: "string \<Rightarrow> int \<times> NumError option" where
  "Atoi s =
     (let neg = (s \<noteq> [] \<and> hd s = CHR ''-'');
          ds = (if s \<noteq> [] \<and> (hd s = CHR ''-'' \<or> hd s = CHR ''+'') then tl s else s)
      in if ds = [] then (0, Some ErrSyntax)
         else (let (un, err) = digitsValue 0 ds
               in if err = Some ErrSyntax then (0, Some ErrSyntax)
                  else if \<not> neg \<and> un \<ge> 2 ^ 63 then (2 ^ 63 - 1, Some ErrRange)
                  else if neg \<and> un > 2 ^ 63 then (- (2 ^ 63), Some ErrRange)
                  else (if neg then - un else un, None)))"

text \<open>The bytes of \<^verbatim>\<open>initPkt.Version() + " 200 Connection Established\r\n\r\n"\<close>.\<close>

definition byteOfChar :: "char \<Rightarrow> byte" where
  "byteOfChar ch = of_char ch"

definition connectionEstablished :: "HttpRequest \<Rightarrow> byte list" where
  "connectionEstablished initPkt =
     map byteOfChar (Version initPkt @ '' 200 Connection Established''
                     @ [CHR 0x0D, CHR 0x0A, CHR 0x0D, CHR 0x0A])"

text \<open>
  What the world outside answers to one run of \<^verbatim>\<open>Serve\<close>: the error of
  \<^verbatim>\<open>net.DialTCP\<close> and of the write of the 200 response (\<open>None\<close> is \<^verbatim>\<open>nil\<close>), the
  result of \<^verbatim>\<open>packet.ReadTLSMessage\<close>, the error of the \<open>i\<close>-th \<^verbatim>\<open>Write\<close> of the
  ClientHello on the upstream connection, and the number the random generator holds
  ready in the \<open>i\<close>-th round of \<^verbatim>\<open>writeChunks\<close>. A \<^verbatim>\<open>Write\<close> without error has
  written all its bytes (the contract of \<^verbatim>\<open>net.Conn\<close>), so its count is the length
  of the chunk.
\<close>

record world =
  dialTCP :: "string option"
  writeClient :: "string option"
  readTLSMessage :: "string + TLSMessage"
  writeUpstream :: "nat \<Rightarrow> string option"
  randSource :: "nat \<Rightarrow> nat"

text \<open>
  \<^verbatim>\<open>rand.Intn(n)\<close> answers a number of \<open>[0, n)\<close>, here the generator's number
  reduced modulo \<open>n\<close>. It panics for \<open>n \<le> 0\<close>; \<^verbatim>\<open>randomDelay\<close> calls it with
  \<^verbatim>\<open>int(delayRange)+1\<close>, which is at least 1.
\<close>

definition Intn :: "nat \<Rightarrow> int \<Rightarrow> int" where
  "Intn r n = int r mod n"

text \<open>
  \<^verbatim>\<open>randomDelay\<close>: the \<^verbatim>\<open>uint16\<close> arithmetic is that of 16-bit words;
  \<^verbatim>\<open>time.Duration(delay) * time.Millisecond\<close> is \<open>delay\<close> milliseconds (at most 65535,
  far from the bound of the 64-bit duration).
\<close>

definition randomDelay :: "'re HttpsHandler \<Rightarrow> nat \<Rightarrow> event list" where
  "randomDelay h r =
     (if \<not> TimingRandomization (config h) then []
      else if TimingDelayMin (config h) \<ge> TimingDelayMax (config h) then []
      else (let delayRange = TimingDelayMax (config h) - TimingDelayMin (config h);
                delay = TimingDelayMin (config h) + word_of_int (Intn r (uint delayRange + 1))
            in [Sleep (unat delay)]))"

text \<open>
  \<^verbatim>\<open>writeChunks\<close>: the loop from index \<open>i\<close> on, with the running \<^verbatim>\<open>total\<close>. It gives
  the calls made and the pair \<^verbatim>\<open>(n, err)\<close> returned.
\<close>

function writeChunksFrom ::
  "'re HttpsHandler \<Rightarrow> world \<Rightarrow> conn \<Rightarrow> byte list list \<Rightarrow> nat \<Rightarrow> int
     \<Rightarrow> event list \<times> int \<times> string option" where
  "writeChunksFrom h w cn c i tot =
     (if i < length c then
        (let delay = (if i > 0 then randomDelay h (randSource w i) else []);
             err = writeUpstream w i;
             b = int (length (c ! i))
         in if err \<noteq> None then (delay @ [Write cn (c ! i)], 0, err)
            else (let (tr, res) = writeChunksFrom h w cn c (Suc i) (tot + b)
                  in (delay @ [Write cn (c ! i)] @ tr, res)))
      else ([], tot, None))"
  by pat_completeness auto
termination
  by (relation "measure (\<lambda>(h, w, cn, c, i, tot). length c - i)") auto

declare writeChunksFrom.simps [simp del]

definition writeChunks ::
  "'re HttpsHandler \<Rightarrow> world \<Rightarrow> conn \<Rightarrow> byte list list
     \<Rightarrow> event list \<times> int \<times> string option" where
  "writeChunks h w cn c = writeChunksFrom h w cn c 0 0"

text \<open>
  The \<^verbatim>\<open>Debug\<close> calls \<^verbatim>\<open>splitInChunks\<close> makes on the way to its result: the window
  size always, and the notice of the legacy fragmentation before it returns the two
  chunks of a non-empty buffer for a window size that is not positive.
\<close>

definition splitInChunksLog :: "byte list \<Rightarrow> int \<Rightarrow> event list" where
  "splitInChunksLog bytes sz =
     [LogDebug ''window-size: %d'']
     @ (if sz > 0 then []
        else if length bytes < 1 then []
        else [LogDebug ''using legacy fragmentation''])"

text \<open>
  \<^verbatim>\<open>Serve\<close>. It assigns \<^verbatim>\<open>h.port\<close>, so the handler is returned with the calls made.
  The result is \<open>None\<close> only if \<^verbatim>\<open>splitInChunks\<close> does not return. After the two
  \<^verbatim>\<open>go\<close> statements the forwarders run on their own; their calls are not part of
  this list (see \<open>communicate\<close> below).
\<close>

definition Serve ::
  "'re HttpsHandler \<Rightarrow> world \<Rightarrow> HttpRequest \<Rightarrow> string
     \<Rightarrow> (event list \<times> 're HttpsHandler) option" where
  "Serve h w initPkt ip =
     (let (h, tr) =
            (if Port initPkt \<noteq> '''' then
               (let (p, err) = Atoi (Port initPkt)
                in (h\<lparr>port := p\<rparr>,
                    if err \<noteq> None then [LogDebug ''error parsing port for %s aborting..'']
                    else []))
             else (h, []));
          tr = tr @ [DialTCP ip (port h)]
      in case dialTCP w of
           Some err \<Rightarrow> Some (tr @ [Close lConn, LogDebug ''%s''], h)
         | None \<Rightarrow>
        (let tr = tr @ [LogDebug ''new connection to the server %s -> %s'',
                        Write lConn (connectionEstablished initPkt)]
         in case writeClient w of
              Some err \<Rightarrow>
                Some (tr @ [LogDebug
                  ''error sending 200 connection established to the client: %s''], h)
            | None \<Rightarrow>
        (let tr = tr @ [LogDebug ''sent connection established to %s'', ReadTLSMessage lConn];
             failed = Some (tr @ [LogDebug ''error reading client hello from %s: %s''], h)
         in case readTLSMessage w of
              Inl err \<Rightarrow> failed
            | Inr m \<Rightarrow>
        if \<not> IsClientHello m then failed
        else
        (let clientHello = Raw m;
             tr = tr @ [LogDebug ''client sent hello %d bytes'',
                        Go_communicate rConn lConn, Go_communicate lConn rConn]
         in if Exploit (config h) then
              (let tr = tr @ [LogDebug ''writing chunked client hello to %s'']
                          @ splitInChunksLog clientHello (WindowSize (config h))
               in case splitInChunks clientHello (WindowSize (config h)) of
                    None \<Rightarrow> None
                  | Some chunks \<Rightarrow>
                      (let (ws, n, err) = writeChunks h w rConn chunks
                       in if err \<noteq> None then
                            Some (tr @ ws @ [LogDebug
                              ''error writing chunked client hello to %s: %s''], h)
                          else Some (tr @ ws, h)))
            else
              (let tr = tr @ [LogDebug ''writing plain client hello to %s'',
                              Write rConn clientHello]
               in if writeUpstream w 0 \<noteq> None then
                    Some (tr @ [LogDebug
                      ''error writing plain client hello to %s: %s''], h)
                  else Some (tr, h))))))"

text \<open>The bytes of the \<^verbatim>\<open>Write\<close> calls of a run on the upstream connection, in order.\<close>

fun upstreamWrites :: "event list \<Rightarrow> byte list list" where
  "upstreamWrites [] = []"
| "upstreamWrites (Write rConn bs # es) = bs # upstreamWrites es"
| "upstreamWrites (e # es) = upstreamWrites es"

section \<open>The forwarder: \<^verbatim>\<open>communicate\<close>\<close>

text \<open>
  \<^verbatim>\<open>setConnectionTimeout\<close> and \<^verbatim>\<open>ReadBytes\<close> are defined outside the files under
  study. A \<open>link\<close> gives what the \<open>k\<close>-th round of the loop meets: the error of
  \<^verbatim>\<open>setConnectionTimeout\<close>, the result of \<^verbatim>\<open>ReadBytes\<close> and the error of
  \<^verbatim>\<open>to.Write\<close>. The loop leaves only through an error, so it is a partial function:
  \<open>None\<close> is the forwarder that never exits.
\<close>

record link =
  setConnectionTimeout :: "nat \<Rightarrow> string option"
  readBytes :: "nat \<Rightarrow> string + byte list"
  writeTo :: "nat \<Rightarrow> string option"

partial_function (option) communicateLoop ::
  "'re HttpsHandler \<Rightarrow> link \<Rightarrow> conn \<Rightarrow> conn \<Rightarrow> nat \<Rightarrow> event list \<Rightarrow> event list option" where
  "communicateLoop h l from to k tr =
     (let tr = tr @ [SetConnectionTimeout from (Timeout (config h))];
          tr = (if setConnectionTimeout l k \<noteq> None then
                  tr @ [LogDebug ''error while setting connection deadline for %s: %s'']
                else tr);
          tr = tr @ [ReadBytes from]
      in case readBytes l k of
           Inl err \<Rightarrow> Some (tr @ [LogDebug ''error reading from %s: %s''])
         | Inr bytesRead \<Rightarrow>
             (let tr = tr @ [Write to bytesRead]
              in if writeTo l k \<noteq> None then Some (tr @ [LogDebug ''error writing to %s''])
                 else communicateLoop h l from to (Suc k) tr))"

text \<open>\<^verbatim>\<open>communicate\<close>: the loop, then the deferred function.\<close>

definition communicate ::
  "'re HttpsHandler \<Rightarrow> link \<Rightarrow> conn \<Rightarrow> conn \<Rightarrow> event list option" where
  "communicate h l from to =
     (case communicateLoop h l from to 0 [] of
        None \<Rightarrow> None
      | Some tr \<Rightarrow>
          Some (tr @ [Close from, Close to, LogDebug ''closing proxy connection: %s -> %s'']))"

text \<open>
  The two connections as Go's \<^verbatim>\<open>net\<close> package keeps them: \<^verbatim>\<open>Close\<close> on an open
  connection releases its descriptor; \<^verbatim>\<open>Close\<close> on a closed one returns an error
  (which the deferred function ignores) and releases nothing. Calls are atomic: the
  package serialises concurrent calls on one connection.
\<close>

record sockets =
  isOpen :: "conn \<Rightarrow> bool"
  closeCalls :: "conn \<Rightarrow> nat"
  released :: "conn \<Rightarrow> nat"

fun perform :: "event \<Rightarrow> sockets \<Rightarrow> sockets" where
  "perform (Close cn) s =
     s\<lparr>isOpen := (isOpen s)(cn := False),
       closeCalls := (closeCalls s)(cn := closeCalls s cn + 1),
       released := (if isOpen s cn then (released s)(cn := released s cn + 1)
                    else released s)\<rparr>"
| "perform e s = s"

text \<open>When the forwarders start, both connections are open and nothing has closed them.\<close>

definition established :: sockets where
  "established = \<lparr>isOpen = (\<lambda>cn. True), closeCalls = (\<lambda>cn. 0), released = (\<lambda>cn. 0)\<rparr>"

section \<open>Orderings of calls, and the connections' state\<close>

text \<open>
  \<open>precededBy P Q tr\<close>: every call of the list \<open>tr\<close> that satisfies \<open>Q\<close> comes
  after a call that satisfies \<open>P\<close> (lemma \<open>precededBy_nth\<close> below).
\<close>

fun precededBy :: "(event \<Rightarrow> bool) \<Rightarrow> (event \<Rightarrow> bool) \<Rightarrow> event list \<Rightarrow> bool" where
  "precededBy P Q [] = True"
| "precededBy P Q (e # es) = (\<not> Q e \<and> (P e \<or> precededBy P Q es))"

text \<open>The state of the connections after the calls of a list, made in order.\<close>

definition run :: "event list \<Rightarrow> sockets \<Rightarrow> sockets" where
  "run tr s = fold perform tr s"

section \<open>Example inputs\<close>

text \<open>
  The inputs of the concrete runs below. For \<^verbatim>\<open>Load\<close> the compiler of the examples
  keeps the text of a pattern and, as \<^verbatim>\<open>regexp.MustCompile\<close> does, rejects the
  pattern \<^verbatim>\<open>+\<close>, a repetition of nothing. In the handlers a compiled
  regular expression is represented by the predicate of the strings it matches
  (\<^verbatim>\<open>MatchString\<close>): \<open>examplePattern\<close> is \<^verbatim>\<open>^example\.com$\<close>. The world of the examples
  accepts the connection, hands over a ten-byte ClientHello and lets every write
  succeed (in \<open>brokenPipeWorld\<close> the first upstream write fails); a forwarder on
  \<open>eofLink\<close> meets the end of its input at once.
\<close>

definition exampleConfig :: "string Config" where
  "exampleConfig =
     \<lparr>Config.Addr = '''', Config.Port = 0, Config.DnsAddr = '''', Config.DnsPort = 0,
      Config.DnsIPv4Only = False, Config.EnableDoh = False, Config.Debug = False,
      Config.Silent = False, Config.SystemProxy = False, Config.Timeout = 0,
      Config.WindowSize = 0, Config.AllowedPatterns = [], Config.TimingRandomization = False,
      Config.TimingDelayMin = 0, Config.TimingDelayMax = 0\<rparr>"

definition exampleArgs :: "string list \<Rightarrow> TimingFlag \<Rightarrow> Args" where
  "exampleArgs patterns t =
     \<lparr>Args.Addr = ''127.0.0.1'', Args.Port = 8080, Args.DnsAddr = ''8.8.8.8'',
      Args.DnsPort = 53, Args.DnsIPv4Only = False, Args.EnableDoh = False,
      Args.Debug = False, Args.Silent = False, Args.SystemProxy = True, Args.Timeout = 0,
      AllowedPattern = patterns, Args.WindowSize = 0, Version = False,
      RandomTiming = t\<rparr>"

definition exampleCompile :: "string \<Rightarrow> string option" where
  "exampleCompile pattern = (if pattern = ''+'' then None else Some pattern)"

definition exampleWorld :: world where
  "exampleWorld =
     \<lparr>dialTCP = None, writeClient = None,
      readTLSMessage = Inr \<lparr>Raw = [22, 3, 1, 0, 5, 1, 0, 0, 1, 0], IsClientHello = True\<rparr>,
      writeUpstream = (\<lambda>i. None), randSource = (\<lambda>i. 7 * i)\<rparr>"

definition brokenPipeWorld :: world where
  "brokenPipeWorld =
     exampleWorld\<lparr>writeUpstream := (\<lambda>i. if i = 0 then Some ''broken pipe'' else None)\<rparr>"

definition exampleRequest :: "string \<Rightarrow> string \<Rightarrow> HttpRequest" where
  "exampleRequest d p = \<lparr>Domain = d, Port = p, Version = ''HTTP/1.1''\<rparr>"

definition examplePattern :: "string \<Rightarrow> bool" where
  "examplePattern s = (s = ''example.com'')"

definition defaultHandler :: "(string \<Rightarrow> bool) HttpsHandler" where
  "defaultHandler = NewHttpsHandler []"

definition patternHandler :: "(string \<Rightarrow> bool) HttpsHandler" where
  "patternHandler = NewHttpsHandler [WithAllowedPatterns [examplePattern]]"

definition plainHandler :: "(string \<Rightarrow> bool) HttpsHandler" where
  "plainHandler = NewHttpsHandler [WithExploit False]"

definition windowHandler :: "(string \<Rightarrow> bool) HttpsHandler" where
  "windowHandler = NewHttpsHandler [WithWindowSize 4, WithTimingRandomization 10 20]"

definition randomDelayHandler :: "(string \<Rightarrow> bool) HttpsHandler" where
  "randomDelayHandler = NewHttpsHandler [WithTimingRandomization 10 20]"

definition fixedDelayHandler :: "(string \<Rightarrow> bool) HttpsHandler" where
  "fixedDelayHandler = NewHttpsHandler [WithTimingRandomization 10 10]"

definition eofLink :: link where
  "eofLink = \<lparr>setConnectionTimeout = (\<lambda>k. None), readBytes = (\<lambda>k. Inl ''EOF''),
              writeTo = (\<lambda>k. None)\<rparr>"

declare chunkLoop.simps [code]
declare communicateLoop.simps [code]

section \<open>Properties of the chunker\<close>

text \<open>
  The loop invariant, by induction on the length of what is left to split: for a
  positive window the loop returns, and what it appends to \<open>chunks\<close> concatenates to
  \<open>raw\<close>, has full-size chunks everywhere but possibly at the end, and a last chunk
  of 1 to \<open>sz\<close> bytes.
\<close>

lemma chunkLoop_spec:
  "0 < sz \<Longrightarrow>
   \<exists>cs. chunkLoop chunks raw sz = Some (chunks @ cs) \<and> concat cs = raw
     \<and> (\<forall>c \<in> set (butlast cs). int (length c) = sz)
     \<and> (cs \<noteq> [] \<longrightarrow> 1 \<le> length (last cs) \<and> int (length (last cs)) \<le> sz)
     \<and> (cs = [] \<longleftrightarrow> raw = [])"
proof (induction "length raw" arbitrary: raw chunks sz rule: less_induct)
  case less
  show ?case
  proof (cases "raw = []")
    case True
    then show ?thesis by (subst chunkLoop.simps) simp
  next
    case False
    define sz' where "sz' = (if int (length raw) < sz then int (length raw) else sz)"
    have pos: "0 < sz'" using less.prems False by (simp add: sz'_def)
    have le: "nat sz' \<le> length raw" by (auto simp: sz'_def)
    have "length (drop (nat sz') raw) < length raw" using pos False by simp
    from less.hyps [OF this pos, of "chunks @ [take (nat sz') raw]"]
    obtain cs where cs:
      "chunkLoop (chunks @ [take (nat sz') raw]) (drop (nat sz') raw) sz'
         = Some ((chunks @ [take (nat sz') raw]) @ cs)"
      "concat cs = drop (nat sz') raw"
      "\<forall>c \<in> set (butlast cs). int (length c) = sz'"
      "cs \<noteq> [] \<longrightarrow> 1 \<le> length (last cs) \<and> int (length (last cs)) \<le> sz'"
      "cs = [] \<longleftrightarrow> drop (nat sz') raw = []" by blast
    have step: "chunkLoop chunks raw sz
        = chunkLoop (chunks @ [take (nat sz') raw]) (drop (nat sz') raw) sz'"
      using False by (subst chunkLoop.simps) (simp add: sz'_def Let_def)
    have sz'_le: "sz' \<le> sz" by (simp add: sz'_def)
    have len_hd: "int (length (take (nat sz') raw)) = sz'" using le pos by simp
    have same: "cs \<noteq> [] \<Longrightarrow> sz' = sz"
      using cs(5) by (auto simp: sz'_def split: if_splits)
    let ?cs = "take (nat sz') raw # cs"
    have r1: "chunkLoop chunks raw sz = Some (chunks @ ?cs)" using step cs(1) by simp
    have r2: "concat ?cs = raw" using cs(2) by simp
    have r3: "\<forall>c \<in> set (butlast ?cs). int (length c) = sz"
    proof (cases "cs = []")
      case True
      then show ?thesis by simp
    next
      case False
      with same have "sz' = sz" by simp
      with cs(3) len_hd False show ?thesis by auto
    qed
    have r4: "?cs \<noteq> [] \<longrightarrow> 1 \<le> length (last ?cs) \<and> int (length (last ?cs)) \<le> sz"
    proof (cases "cs = []")
      case True
      with len_hd pos sz'_le show ?thesis by simp
    next
      case False
      with same cs(4) show ?thesis by simp
    qed
    have r5: "(?cs = []) = (raw = [])" using \<open>raw \<noteq> []\<close> by simp
    from r1 r2 r3 r4 r5 show ?thesis by (intro exI [of _ ?cs] conjI)
  qed
qed

lemma chunkLoop_fresh:
  assumes "0 < sz"
  obtains cs where "chunkLoop [] raw sz = Some cs" and "concat cs = raw"
    and "\<forall>c \<in> set (butlast cs). int (length c) = sz"
    and "cs \<noteq> [] \<longrightarrow> 1 \<le> length (last cs) \<and> int (length (last cs)) \<le> sz"
    and "cs = [] \<longleftrightarrow> raw = []"
  using chunkLoop_spec [OF assms, of "[]" raw] by auto

text \<open>The chunker returns for every buffer and every window size.\<close>

lemma splitInChunks_returns: "\<exists>cs. splitInChunks B w = Some cs"
proof (cases "0 < w")
  case True
  from chunkLoop_fresh [OF this, of B] show ?thesis
    using True by (auto simp: splitInChunks_def)
next
  case False
  then show ?thesis by (simp add: splitInChunks_def)
qed

text \<open>
  Claim C1. For every byte buffer \<open>B\<close> and every window size \<open>w\<close>, \<^verbatim>\<open>splitInChunks\<close>
  returns, and the concatenation of the chunks it returns, in order, is \<open>B\<close>: no byte
  is added, dropped or reordered.
\<close>

theorem splitInChunks_concat:
  "\<exists>cs. splitInChunks B w = Some cs \<and> concat cs = B"
proof (cases "0 < w")
  case True
  from chunkLoop_fresh [OF this, of B] show ?thesis
    using True by (auto simp: splitInChunks_def)
next
  case False
  then show ?thesis by (simp add: splitInChunks_def)
qed

theorem splitInChunks_concat_witness:
  "(\<exists>cs. splitInChunks [22, 3, 1, 0, 5, 1, 0, 0, 1, 0] 4 = Some cs
      \<and> concat cs = [22, 3, 1, 0, 5, 1, 0, 0, 1, 0])
   \<and> (\<exists>cs. splitInChunks [22, 3, 1] 0 = Some cs \<and> concat cs = [22, 3, 1])"
  using splitInChunks_concat [of "[22, 3, 1, 0, 5, 1, 0, 0, 1, 0]" 4]
    splitInChunks_concat [of "[22, 3, 1]" 0]
  by simp

text \<open>
  Claim C3. For a window size \<open>w \<le> 0\<close>: a non-empty buffer \<open>B\<close> is split into
  exactly two chunks, its first byte and the rest, of lengths 1 and \<open>|B| - 1\<close>; the
  empty buffer gives exactly one chunk, which is empty.
\<close>

theorem splitInChunks_legacy:
  assumes "w \<le> 0"
  shows "(B \<noteq> [] \<longrightarrow>
            splitInChunks B w = Some [take 1 B, drop 1 B]
            \<and> length (take 1 B) = 1 \<and> length (drop 1 B) = length B - 1)
       \<and> (B = [] \<longrightarrow> splitInChunks B w = Some [[]])"
proof -
  have "B \<noteq> [] \<Longrightarrow> length (take 1 B) = 1" by (cases B) simp_all
  with assms show ?thesis by (auto simp: splitInChunks_def)
qed

theorem splitInChunks_legacy_witness:
  "(0::int) \<le> 0 \<and> splitInChunks [22, 3, 1, 0] 0 = Some [[22], [3, 1, 0]]
   \<and> (-1::int) \<le> 0 \<and> splitInChunks [] (-1) = Some [[]]"
  using splitInChunks_legacy [of 0 "[22, 3, 1, 0]"] splitInChunks_legacy [of "-1" "[]"]
  by simp

text \<open>
  Claim C4. For a window size \<open>w > 0\<close>, \<^verbatim>\<open>splitInChunks\<close> returns chunks of which
  every one but possibly the last has exactly \<open>w\<close> bytes, the last has between 1 and
  \<open>w\<close> bytes, and there is no chunk at all exactly when \<open>B\<close> is empty.
\<close>

theorem splitInChunks_window:
  assumes "0 < w"
  shows "\<exists>cs. splitInChunks B w = Some cs
           \<and> (\<forall>c \<in> set (butlast cs). int (length c) = w)
           \<and> (cs \<noteq> [] \<longrightarrow> 1 \<le> length (last cs) \<and> int (length (last cs)) \<le> w)
           \<and> (cs = [] \<longleftrightarrow> B = [])"
proof -
  from chunkLoop_fresh [OF assms, of B] obtain cs where
    "chunkLoop [] B w = Some cs"
    "\<forall>c \<in> set (butlast cs). int (length c) = w"
    "cs \<noteq> [] \<longrightarrow> 1 \<le> length (last cs) \<and> int (length (last cs)) \<le> w"
    "cs = [] \<longleftrightarrow> B = []" by blast
  with assms show ?thesis by (simp add: splitInChunks_def)
qed

theorem splitInChunks_window_witness:
  "(0::int) < 4 \<and>
   (\<exists>cs. splitInChunks [22, 3, 1, 0, 5, 1, 0, 0, 1, 0] 4 = Some cs
      \<and> cs = [[22, 3, 1, 0], [5, 1, 0, 0], [1, 0]]
      \<and> list_all (\<lambda>c. int (length c) = 4) (butlast cs)
      \<and> 1 \<le> length (last cs) \<and> int (length (last cs)) \<le> 4)"
proof -
  have ev: "splitInChunks [22, 3, 1, 0, 5, 1, 0, 0, 1, 0] 4
      = Some [[22, 3, 1, 0], [5, 1, 0, 0], [1, 0]]"
    by (simp add: splitInChunks_def chunkLoop.simps)
  from splitInChunks_window [of 4 "[22, 3, 1, 0, 5, 1, 0, 0, 1, 0]"] ev
  show ?thesis by (auto simp: list_all_iff)
qed

section \<open>Validation of the configuration\<close>

text \<open>
  Claim C8. \<^verbatim>\<open>Validate\<close> returns an error exactly when the timeout is negative, the
  window size is negative, or timing randomization is enabled and the minimum delay
  is greater than the maximum; and when the configuration the options build fails
  validation, \<^verbatim>\<open>NewHttpsHandler\<close> returns a handler with the default configuration
  in its place (otherwise with the configuration built).
\<close>

theorem Validate_NewHttpsHandler:
  "(Validate c \<noteq> None) =
     (Timeout c < 0 \<or> WindowSize c < 0
      \<or> (TimingRandomization c \<and> TimingDelayMin c > TimingDelayMax c))
   \<and> (Validate (applyOptions opts) \<noteq> None \<longrightarrow>
        config (NewHttpsHandler opts) = DefaultHttpsHandlerConfig)
   \<and> (Validate (applyOptions opts) = None \<longrightarrow>
        config (NewHttpsHandler opts) = applyOptions opts)"
  by (simp add: Validate_def NewHttpsHandler_def)

theorem Validate_NewHttpsHandler_witness:
  "Validate (applyOptions [WithTimeout (- 1)] :: string HttpsHandlerConfig) \<noteq> None
   \<and> config (NewHttpsHandler [WithTimeout (- 1)])
       = (DefaultHttpsHandlerConfig :: string HttpsHandlerConfig)
   \<and> Validate (applyOptions [WithTimingRandomization 30 20] :: string HttpsHandlerConfig) \<noteq> None
   \<and> config (NewHttpsHandler [WithTimingRandomization 30 20])
       = (DefaultHttpsHandlerConfig :: string HttpsHandlerConfig)
   \<and> Validate (applyOptions [WithWindowSize 4] :: string HttpsHandlerConfig) = None
   \<and> config (NewHttpsHandler [WithWindowSize 4])
       = (applyOptions [WithWindowSize 4] :: string HttpsHandlerConfig)"
proof -
  have a: "Validate (applyOptions [WithTimeout (- 1)] :: string HttpsHandlerConfig) \<noteq> None"
    by (simp add: Validate_def applyOptions_def WithTimeout_def DefaultHttpsHandlerConfig_def)
  have b: "Validate (applyOptions [WithTimingRandomization 30 20] :: string HttpsHandlerConfig)
      \<noteq> None"
    by (simp add: Validate_def applyOptions_def WithTimingRandomization_def
        DefaultHttpsHandlerConfig_def)
  have c: "Validate (applyOptions [WithWindowSize 4] :: string HttpsHandlerConfig) = None"
    by (simp add: Validate_def applyOptions_def WithWindowSize_def DefaultHttpsHandlerConfig_def)
  from a b c
    Validate_NewHttpsHandler [of "applyOptions [WithTimeout (- 1)]" "[WithTimeout (- 1)]"]
    Validate_NewHttpsHandler [of "applyOptions [WithTimeout (- 1)]"
      "[WithTimingRandomization 30 20]"]
    Validate_NewHttpsHandler [of "applyOptions [WithTimeout (- 1)]" "[WithWindowSize 4]"]
  show ?thesis by blast
qed

section \<open>Loading the configuration\<close>

lemma parseAllowedPatternLoop_panics:
  "parseAllowedPatternLoop compile acc ps = Inl p \<Longrightarrow> \<exists>s \<in> set ps. compile s = None"
  by (induction ps arbitrary: acc) (auto split: option.splits)

lemma parseAllowedPatternLoop_returns:
  "\<forall>s \<in> set ps. compile s \<noteq> None \<Longrightarrow> \<exists>res. parseAllowedPatternLoop compile acc ps = Inr res"
  by (induction ps arbitrary: acc) (auto split: option.splits)

text \<open>
  \<^verbatim>\<open>Load\<close> compiles the patterns before it looks at the timing argument, so it only
  gets there if every pattern compiles.
\<close>

lemma Load_panics:
  "parseAllowedPattern compile (AllowedPattern args) = Inl p \<Longrightarrow> Load compile c args = Inl p"
  by (simp add: Load_def)

text \<open>
  Claim C10, as the code has it. For arguments all of whose patterns compile:
  when the \<^verbatim>\<open>RandomTiming\<close> flag is set with a value other than \<^verbatim>\<open>short\<close>,
  \<^verbatim>\<open>medium\<close> and \<^verbatim>\<open>long\<close> (the empty string included), \<^verbatim>\<open>Load\<close> returns with
  timing randomization enabled and the short preset, 5 and 25; when the flag is not
  set, it returns with timing randomization disabled and both delays 0.
\<close>

theorem Load_random_timing:
  assumes "\<forall>s \<in> set (AllowedPattern args). compile s \<noteq> None"
  shows "(IsSet (RandomTiming args)
      \<and> Value (RandomTiming args) \<notin> {''short'', ''medium'', ''long''} \<longrightarrow>
      (\<exists>c'. Load compile c args = Inr c'
         \<and> Config.TimingRandomization c'
         \<and> Config.TimingDelayMin c' = 5 \<and> Config.TimingDelayMax c' = 25))
   \<and> (\<not> IsSet (RandomTiming args) \<longrightarrow>
      (\<exists>c'. Load compile c args = Inr c'
         \<and> \<not> Config.TimingRandomization c'
         \<and> Config.TimingDelayMin c' = 0 \<and> Config.TimingDelayMax c' = 0))"
proof -
  from parseAllowedPatternLoop_returns [OF assms, of "[]"]
  obtain res where "parseAllowedPattern compile (AllowedPattern args) = Inr res"
    unfolding parseAllowedPattern_def by blast
  then show ?thesis by (simp add: Load_def Let_def)
qed

theorem Load_random_timing_witness:
  "AllowedPattern (exampleArgs [''example''] \<lparr>Value = ''fast'', IsSet = True\<rparr>) = [''example'']
   \<and> exampleCompile ''example'' = Some ''example''
   \<and> (\<exists>c'. Load exampleCompile exampleConfig
              (exampleArgs [''example''] \<lparr>Value = ''fast'', IsSet = True\<rparr>) = Inr c'
       \<and> Config.TimingRandomization c'
       \<and> Config.TimingDelayMin c' = 5 \<and> Config.TimingDelayMax c' = 25)
   \<and> (\<exists>c'. Load exampleCompile exampleConfig
              (exampleArgs [''example''] \<lparr>Value = [], IsSet = True\<rparr>) = Inr c'
       \<and> Config.TimingRandomization c'
       \<and> Config.TimingDelayMin c' = 5 \<and> Config.TimingDelayMax c' = 25)
   \<and> (\<exists>c'. Load exampleCompile exampleConfig
              (exampleArgs [''example''] \<lparr>Value = ''long'', IsSet = False\<rparr>) = Inr c'
       \<and> \<not> Config.TimingRandomization c'
       \<and> Config.TimingDelayMin c' = 0 \<and> Config.TimingDelayMax c' = 0)"
proof -
  have ok: "\<forall>s \<in> set (AllowedPattern (exampleArgs [''example''] t)). exampleCompile s \<noteq> None"
    for t by (simp add: exampleArgs_def exampleCompile_def)
  have flag: "RandomTiming (exampleArgs ps t) = t" for ps t by (simp add: exampleArgs_def)
  have a: "AllowedPattern (exampleArgs [''example''] \<lparr>Value = ''fast'', IsSet = True\<rparr>)
      = [''example'']"
    by (simp add: exampleArgs_def)
  have b: "exampleCompile ''example'' = Some ''example''" by (simp add: exampleCompile_def)
  from Load_random_timing [OF ok, of "\<lparr>Value = ''fast'', IsSet = True\<rparr>" exampleConfig]
  have c: "\<exists>c'. Load exampleCompile exampleConfig
              (exampleArgs [''example''] \<lparr>Value = ''fast'', IsSet = True\<rparr>) = Inr c'
       \<and> Config.TimingRandomization c'
       \<and> Config.TimingDelayMin c' = 5 \<and> Config.TimingDelayMax c' = 25"
    by (simp add: flag)
  from Load_random_timing [OF ok, of "\<lparr>Value = [], IsSet = True\<rparr>" exampleConfig]
  have d: "\<exists>c'. Load exampleCompile exampleConfig
              (exampleArgs [''example''] \<lparr>Value = [], IsSet = True\<rparr>) = Inr c'
       \<and> Config.TimingRandomization c'
       \<and> Config.TimingDelayMin c' = 5 \<and> Config.TimingDelayMax c' = 25"
    by (simp add: flag)
  from Load_random_timing [OF ok, of "\<lparr>Value = ''long'', IsSet = False\<rparr>" exampleConfig]
  have e: "\<exists>c'. Load exampleCompile exampleConfig
              (exampleArgs [''example''] \<lparr>Value = ''long'', IsSet = False\<rparr>) = Inr c'
       \<and> \<not> Config.TimingRandomization c'
       \<and> Config.TimingDelayMin c' = 0 \<and> Config.TimingDelayMax c' = 0"
    by (simp add: flag)
  from a b c d e show ?thesis by blast
qed

text \<open>
  The claim as first stated speaks of every value of the arguments. With the flag
  set to \<^verbatim>\<open>fast\<close> and the one pattern \<^verbatim>\<open>+\<close>, \<^verbatim>\<open>Load\<close> panics in
  \<^verbatim>\<open>regexp.MustCompile\<close> and never reaches the timing argument.
\<close>

theorem Load_bad_pattern_panics:
  "IsSet (RandomTiming (exampleArgs [''+''] \<lparr>Value = ''fast'', IsSet = True\<rparr>))
   \<and> Value (RandomTiming (exampleArgs [''+''] \<lparr>Value = ''fast'', IsSet = True\<rparr>))
       \<notin> {''short'', ''medium'', ''long''}
   \<and> Load exampleCompile exampleConfig (exampleArgs [''+''] \<lparr>Value = ''fast'', IsSet = True\<rparr>)
       = Inl (RegexpMustCompile ''+'')"
  by (simp add: Load_def parseAllowedPattern_def exampleArgs_def exampleCompile_def)

section \<open>Delays between the chunks\<close>

lemma randomDelay_off:
  "\<not> TimingRandomization (config h) \<or> TimingDelayMax (config h) \<le> TimingDelayMin (config h)
   \<Longrightarrow> randomDelay h r = []"
  by (auto simp: randomDelay_def)

lemma randomDelay_on:
  assumes "TimingRandomization (config h)"
    and "TimingDelayMin (config h) < TimingDelayMax (config h)"
  shows "randomDelay h r =
    [Sleep (unat (TimingDelayMin (config h))
            + r mod (unat (TimingDelayMax (config h)) - unat (TimingDelayMin (config h)) + 1))]"
proof -
  let ?lo = "TimingDelayMin (config h)" and ?hi = "TimingDelayMax (config h)"
  let ?n = "unat ?hi - unat ?lo + 1"
  have le: "?lo \<le> ?hi" using assms(2) by simp
  have lt: "unat ?lo < unat ?hi" using assms(2) by (simp add: word_less_nat_alt)
  have "unat ?hi < 2 ^ LENGTH(16)" by (rule unsigned_less)
  then have hi: "unat ?hi < 65536" by simp
  have "unat (?hi - ?lo) = unat ?hi - unat ?lo" using le by (rule unat_sub)
  then have range: "uint (?hi - ?lo) + 1 = int ?n" by (simp add: uint_nat)
  define m where "m = r mod ?n"
  have "m < ?n" unfolding m_def by simp
  then have small: "m \<le> unat ?hi - unat ?lo" by simp
  have r: "Intn r (uint (?hi - ?lo) + 1) = int m"
    unfolding range Intn_def m_def by (simp only: zmod_int)
  have "m < 2 ^ LENGTH(16)" using small hi by simp
  then have w: "unat (word_of_nat m :: uint16) = m"
    by (simp only: unat_of_nat mod_less)
  have "unat ?lo + unat (word_of_nat m :: uint16) < 2 ^ LENGTH(16)"
    using small hi lt w by simp
  then have "unat (?lo + word_of_nat m) = unat ?lo + m"
    using w by (simp add: unat_add_lem [THEN iffD1])
  moreover have "\<not> ?hi \<le> ?lo" using assms(2) by simp
  ultimately show ?thesis using assms(1) r by (simp add: randomDelay_def Let_def m_def)
qed

lemma writeChunksFrom_prefix:
  "prefix (fst (writeChunksFrom h w cn c i tot))
     (concat (map (\<lambda>k. (if 0 < k then randomDelay h (randSource w k) else [])
                          @ [Write cn (c ! k)]) [i..<length c]))"
proof (induction h w cn c i tot rule: writeChunksFrom.induct)
  case (1 h w cn c i tot)
  show ?case
  proof (cases "i < length c")
    case False
    then show ?thesis by (subst writeChunksFrom.simps) simp
  next
    case True
    show ?thesis
    proof (cases "writeUpstream w i = None")
      case False
      with True show ?thesis
        by (subst writeChunksFrom.simps) (simp add: upt_conv_Cons)
    next
      case ok: True
      from "1.IH" [OF True refl refl refl] ok
      have "prefix (fst (writeChunksFrom h w cn c (Suc i) (tot + int (length (c ! i)))))
         (concat (map (\<lambda>k. (if 0 < k then randomDelay h (randSource w k) else [])
                          @ [Write cn (c ! k)]) [Suc i..<length c]))" by simp
      with True ok show ?thesis
        by (subst writeChunksFrom.simps)
           (simp add: upt_conv_Cons split_beta Let_def)
    qed
  qed
qed

lemma writeChunksFrom_all:
  "\<forall>k. i \<le> k \<and> k < length c \<longrightarrow> writeUpstream w k = None \<Longrightarrow>
   fst (writeChunksFrom h w cn c i tot) =
     concat (map (\<lambda>k. (if 0 < k then randomDelay h (randSource w k) else [])
                          @ [Write cn (c ! k)]) [i..<length c])
   \<and> snd (snd (writeChunksFrom h w cn c i tot)) = None"
proof (induction h w cn c i tot rule: writeChunksFrom.induct)
  case (1 h w cn c i tot)
  show ?case
  proof (cases "i < length c")
    case False
    then show ?thesis by (subst (1 2) writeChunksFrom.simps) simp
  next
    case True
    have ok: "writeUpstream w i = None" using "1.prems" True by simp
    have rest: "\<forall>k. Suc i \<le> k \<and> k < length c \<longrightarrow> writeUpstream w k = None"
      using "1.prems" by simp
    from "1.IH" [OF True refl refl refl _ rest] ok
    have "fst (writeChunksFrom h w cn c (Suc i) (tot + int (length (c ! i)))) =
         (concat (map (\<lambda>k. (if 0 < k then randomDelay h (randSource w k) else [])
                          @ [Write cn (c ! k)]) [Suc i..<length c]))
       \<and> snd (snd (writeChunksFrom h w cn c (Suc i) (tot + int (length (c ! i))))) = None"
      by simp
    with True ok show ?thesis
      by (subst (1 2) writeChunksFrom.simps)
         (simp add: upt_conv_Cons split_beta Let_def)
  qed
qed

text \<open>The loop stops at the first write that fails.\<close>

lemma writeChunksFrom_fails:
  assumes "k < length c" and "writeUpstream w k \<noteq> None"
    and "\<forall>j < k. writeUpstream w j = None"
  shows "i \<le> k \<Longrightarrow>
    fst (writeChunksFrom h w cn c i tot) =
      concat (map (\<lambda>k. (if 0 < k then randomDelay h (randSource w k) else [])
                          @ [Write cn (c ! k)]) [i..<Suc k])
    \<and> snd (snd (writeChunksFrom h w cn c i tot)) = writeUpstream w k"
proof (induction "k - i" arbitrary: i tot)
  case 0
  then have "i = k" by simp
  with assms(1,2) show ?case
    by (subst (1 2) writeChunksFrom.simps) (simp add: Let_def)
next
  case (Suc n)
  then have lt: "i < k" and n: "n = k - Suc i" and le: "Suc i \<le> k" by simp_all
  from lt assms(3) have ok: "writeUpstream w i = None" by simp
  from lt assms(1) have i: "i < length c" by simp
  from Suc.hyps(1) [OF n le, of "tot + int (length (c ! i))"] i ok lt show ?case
    by (subst (1 2) writeChunksFrom.simps)
       (simp add: upt_conv_Cons split_beta Let_def)
qed

lemma concat_singletons: "concat (map (\<lambda>k. [f k]) ks) = map f ks"
  by (induction ks) simp_all

text \<open>
  Claim C5, as the code has it. With timing randomization enabled and every write
  succeeding: when the minimum delay is below the maximum, \<^verbatim>\<open>writeChunks\<close> sleeps
  before every chunk but the first, for the minimum plus \<^verbatim>\<open>rand.Intn\<close> of the width
  of the range plus one, in milliseconds; every such delay lies in the inclusive
  range and every value of the range is the delay for some number of the generator.
  When the minimum is not below the maximum, so also when the two are equal,
  \<^verbatim>\<open>randomDelay\<close> returns at once and the chunks are written with no sleep between
  them.
\<close>

theorem writeChunks_delays:
  assumes "TimingRandomization (config h)"
    and "\<forall>k < length c. writeUpstream w k = None"
  shows "(TimingDelayMin (config h) < TimingDelayMax (config h) \<longrightarrow>
            fst (writeChunks h w cn c) =
              concat (map (\<lambda>k. (if 0 < k then
                     [Sleep (unat (TimingDelayMin (config h))
                        + randSource w k mod (unat (TimingDelayMax (config h))
                                               - unat (TimingDelayMin (config h)) + 1))]
                     else []) @ [Write cn (c ! k)]) [0..<length c])
            \<and> (\<forall>r. \<exists>d. randomDelay h r = [Sleep d]
                   \<and> unat (TimingDelayMin (config h)) \<le> d
                   \<and> d \<le> unat (TimingDelayMax (config h)))
            \<and> (\<forall>d. unat (TimingDelayMin (config h)) \<le> d
                   \<and> d \<le> unat (TimingDelayMax (config h)) \<longrightarrow>
                   randomDelay h (d - unat (TimingDelayMin (config h))) = [Sleep d]))
       \<and> (TimingDelayMax (config h) \<le> TimingDelayMin (config h) \<longrightarrow>
            fst (writeChunks h w cn c) = map (Write cn) c)"
proof (intro conjI impI)
  let ?lo = "unat (TimingDelayMin (config h))" and ?hi = "unat (TimingDelayMax (config h))"
  have all: "fst (writeChunks h w cn c) =
     concat (map (\<lambda>k. (if 0 < k then randomDelay h (randSource w k) else [])
                          @ [Write cn (c ! k)]) [0..<length c])"
    using writeChunksFrom_all [of 0 c w h cn 0] assms(2) by (simp add: writeChunks_def)
  {
    assume lt: "TimingDelayMin (config h) < TimingDelayMax (config h)"
    then have lt': "?lo < ?hi" by (simp add: word_less_nat_alt)
    show "fst (writeChunks h w cn c) =
              concat (map (\<lambda>k. (if 0 < k then
                     [Sleep (?lo + randSource w k mod (?hi - ?lo + 1))]
                     else []) @ [Write cn (c ! k)]) [0..<length c])"
      unfolding all by (simp only: randomDelay_on [OF assms(1) lt])
    show "\<forall>r. \<exists>d. randomDelay h r = [Sleep d] \<and> ?lo \<le> d \<and> d \<le> ?hi"
    proof
      fix r
      have "r mod (?hi - ?lo + 1) < ?hi - ?lo + 1" by simp
      then have "?lo + r mod (?hi - ?lo + 1) \<le> ?hi" using lt' by linarith
      then show "\<exists>d. randomDelay h r = [Sleep d] \<and> ?lo \<le> d \<and> d \<le> ?hi"
        by (simp add: randomDelay_on [OF assms(1) lt])
    qed
    show "\<forall>d. ?lo \<le> d \<and> d \<le> ?hi \<longrightarrow> randomDelay h (d - ?lo) = [Sleep d]"
    proof (intro allI impI)
      fix d assume d: "?lo \<le> d \<and> d \<le> ?hi"
      then have "d - ?lo < ?hi - ?lo + 1" by linarith
      then have "(d - ?lo) mod (?hi - ?lo + 1) = d - ?lo" by (rule mod_less)
      with d show "randomDelay h (d - ?lo) = [Sleep d]"
        by (simp add: randomDelay_on [OF assms(1) lt])
    qed
  }
  {
    assume "TimingDelayMax (config h) \<le> TimingDelayMin (config h)"
    then have off: "\<And>r. randomDelay h r = []" by (simp add: randomDelay_off)
    have "fst (writeChunks h w cn c) = concat (map (\<lambda>k. [Write cn (c ! k)]) [0..<length c])"
      by (simp only: all off if_cancel append_Nil)
    also have "\<dots> = map (\<lambda>k. Write cn (c ! k)) [0..<length c]"
      by (simp only: concat_singletons)
    also have "\<dots> = map (Write cn) (map ((!) c) [0..<length c])" by simp
    also have "\<dots> = map (Write cn) c" by (simp only: map_nth)
    finally show "fst (writeChunks h w cn c) = map (Write cn) c" .
  }
qed

lemma randomDelayHandler_config:
  "config randomDelayHandler =
     \<lparr>Timeout = 0, WindowSize = 0, AllowedPatterns = [], Exploit = True,
      TimingRandomization = True, TimingDelayMin = 10, TimingDelayMax = 20\<rparr>"
  by (simp add: randomDelayHandler_def NewHttpsHandler_def applyOptions_def Validate_def
      WithTimingRandomization_def DefaultHttpsHandlerConfig_def)

lemma fixedDelayHandler_config:
  "config fixedDelayHandler =
     \<lparr>Timeout = 0, WindowSize = 0, AllowedPatterns = [], Exploit = True,
      TimingRandomization = True, TimingDelayMin = 10, TimingDelayMax = 10\<rparr>"
  by (simp add: fixedDelayHandler_def NewHttpsHandler_def applyOptions_def Validate_def
      WithTimingRandomization_def DefaultHttpsHandlerConfig_def)

theorem writeChunks_delays_witness:
  "TimingRandomization (config randomDelayHandler)
   \<and> fst (writeChunks randomDelayHandler exampleWorld rConn [[22, 3], [1, 0], [5]])
       = [Write rConn [22, 3], Sleep 17, Write rConn [1, 0], Sleep 13, Write rConn [5]]"
proof -
  have on: "TimingRandomization (config randomDelayHandler)"
    by (simp add: randomDelayHandler_config)
  have ok: "\<forall>k < length [[22, 3], [1, 0], [5 :: byte]]. writeUpstream exampleWorld k = None"
    by (simp add: exampleWorld_def)
  have lt: "TimingDelayMin (config randomDelayHandler) < TimingDelayMax (config randomDelayHandler)"
    by (simp add: randomDelayHandler_config)
  from writeChunks_delays [OF on ok, of rConn] lt
  have "fst (writeChunks randomDelayHandler exampleWorld rConn [[22, 3], [1, 0], [5]]) =
      concat (map (\<lambda>k. (if 0 < k then
                     [Sleep (unat (TimingDelayMin (config randomDelayHandler))
                        + randSource exampleWorld k
                            mod (unat (TimingDelayMax (config randomDelayHandler))
                                 - unat (TimingDelayMin (config randomDelayHandler)) + 1))]
                     else []) @ [Write rConn ([[22, 3], [1, 0], [5]] ! k)])
                [0..<length [[22, 3], [1, 0], [5 :: byte]]])"
    by blast
  also have "\<dots> = [Write rConn [22, 3], Sleep 17, Write rConn [1, 0], Sleep 13, Write rConn [5]]"
    by (simp add: randomDelayHandler_config exampleWorld_def upt_conv_Cons)
  finally show ?thesis using on by simp
qed

text \<open>
  The claim as first stated asks for a sleep also when the two bounds are equal. With
  both bounds 10 and randomization enabled, two chunks are written back to back.
\<close>

theorem writeChunks_equal_bounds_no_sleep:
  "TimingRandomization (config fixedDelayHandler)
   \<and> TimingDelayMin (config fixedDelayHandler) = 10
   \<and> TimingDelayMax (config fixedDelayHandler) = 10
   \<and> fst (writeChunks fixedDelayHandler exampleWorld rConn [[22, 3], [1, 0]])
       = [Write rConn [22, 3], Write rConn [1, 0]]"
  by (simp add: fixedDelayHandler_config writeChunks_def writeChunksFrom.simps
      randomDelay_def exampleWorld_def)

section \<open>The calls of \<^verbatim>\<open>Serve\<close>\<close>

lemma upstreamWrites_append:
  "upstreamWrites (xs @ ys) = upstreamWrites xs @ upstreamWrites ys"
  by (induction xs rule: upstreamWrites.induct) simp_all

lemma upstreamWrites_randomDelay: "upstreamWrites (randomDelay h r) = []"
  by (simp add: randomDelay_def Let_def)

lemma upstreamWrites_splitInChunksLog: "upstreamWrites (splitInChunksLog bytes sz) = []"
  by (simp add: splitInChunksLog_def)

lemma upstreamWrites_rounds:
  "upstreamWrites (concat (map (\<lambda>k. (if 0 < k then randomDelay h (randSource w k) else [])
                          @ [Write rConn (c ! k)]) [i..<length c])) = drop i c"
proof (induction "length c - i" arbitrary: i)
  case 0
  then show ?case by simp
next
  case (Suc n)
  then have i: "i < length c" and n: "n = length c - Suc i" by simp_all
  from Suc.hyps(1) [OF n] i show ?case
    by (simp add: upt_conv_Cons upstreamWrites_append upstreamWrites_randomDelay
        Cons_nth_drop_Suc)
qed

lemma upstreamWrites_rounds_take:
  "n \<le> length c \<Longrightarrow>
   upstreamWrites (concat (map (\<lambda>k. (if 0 < k then randomDelay h (randSource w k) else [])
                          @ [Write rConn (c ! k)]) [0..<n])) = take n c"
proof (induction n)
  case 0
  then show ?case by simp
next
  case (Suc n)
  then show ?case
    by (simp add: upstreamWrites_append upstreamWrites_randomDelay take_Suc_conv_app_nth)
qed

lemma upstreamWrites_prefix:
  "prefix xs ys \<Longrightarrow> prefix (upstreamWrites xs) (upstreamWrites ys)"
  by (auto simp: prefix_def upstreamWrites_append)

lemma upstreamWrites_writeChunks_prefix:
  "prefix (upstreamWrites (fst (writeChunks h w rConn c))) c"
  using upstreamWrites_prefix [OF writeChunksFrom_prefix [of h w rConn c 0 0]]
  by (simp add: writeChunks_def upstreamWrites_rounds)

lemma upstreamWrites_writeChunks_all:
  "\<forall>k < length c. writeUpstream w k = None \<Longrightarrow>
   upstreamWrites (fst (writeChunks h w rConn c)) = c"
  using writeChunksFrom_all [of 0 c w h rConn 0]
  by (simp add: writeChunks_def upstreamWrites_rounds)

lemma upstreamWrites_writeChunks_fails:
  assumes "k < length c" and "writeUpstream w k \<noteq> None"
    and "\<forall>j < k. writeUpstream w j = None"
  shows "upstreamWrites (fst (writeChunks h w rConn c)) = take (Suc k) c"
proof -
  from writeChunksFrom_fails [OF assms, of 0 h rConn 0]
  have "fst (writeChunks h w rConn c) =
      concat (map (\<lambda>k. (if 0 < k then randomDelay h (randSource w k) else [])
                          @ [Write rConn (c ! k)]) [0..<Suc k])"
    unfolding writeChunks_def by blast
  moreover from assms(1) have "Suc k \<le> length c" by simp
  ultimately show ?thesis by (simp only: upstreamWrites_rounds_take)
qed

lemma Serve_hello:
  assumes "dialTCP w = None" and "writeClient w = None"
    and "readTLSMessage w = Inr m" and "IsClientHello m"
  shows "Serve h w initPkt ip =
    (let h' = (if Port initPkt \<noteq> '''' then h\<lparr>port := fst (Atoi (Port initPkt))\<rparr> else h);
         tr = (if Port initPkt \<noteq> '''' \<and> snd (Atoi (Port initPkt)) \<noteq> None
               then [LogDebug ''error parsing port for %s aborting..''] else [])
              @ [DialTCP ip (port h'),
                 LogDebug ''new connection to the server %s -> %s'',
                 Write lConn (connectionEstablished initPkt),
                 LogDebug ''sent connection established to %s'', ReadTLSMessage lConn,
                 LogDebug ''client sent hello %d bytes'',
                 Go_communicate rConn lConn, Go_communicate lConn rConn]
     in if Exploit (config h) then
          (case splitInChunks (Raw m) (WindowSize (config h)) of
             None \<Rightarrow> None
           | Some chunks \<Rightarrow>
               Some (tr @ [LogDebug ''writing chunked client hello to %s'']
                     @ splitInChunksLog (Raw m) (WindowSize (config h))
                     @ fst (writeChunks h' w rConn chunks)
                     @ (if snd (snd (writeChunks h' w rConn chunks)) \<noteq> None
                        then [LogDebug ''error writing chunked client hello to %s: %s'']
                        else []), h'))
        else
          Some (tr @ [LogDebug ''writing plain client hello to %s'', Write rConn (Raw m)]
                @ (if writeUpstream w 0 \<noteq> None
                   then [LogDebug ''error writing plain client hello to %s: %s''] else []),
                h'))"
  using assms
  by (auto simp: Serve_def Let_def split_beta split: option.splits)

lemma precededBy_nth:
  "precededBy P Q tr \<Longrightarrow> j < length tr \<Longrightarrow> Q (tr ! j) \<Longrightarrow> \<exists>i<j. P (tr ! i)"
proof (induction tr arbitrary: j)
  case Nil
  then show ?case by simp
next
  case (Cons e es)
  show ?case
  proof (cases "P e")
    case True
    with Cons.prems show ?thesis
      by (cases j) auto
  next
    case False
    with Cons.prems obtain j' where j': "j = Suc j'" by (cases j) auto
    with Cons.prems False have "precededBy P Q es" "j' < length es" "Q (es ! j')" by auto
    from Cons.IH [OF this] obtain i where "i < j'" "P (es ! i)" by blast
    then have "Suc i < j \<and> P ((e # es) ! Suc i)" using j' by simp
    then show ?thesis by blast
  qed
qed

lemma Serve_returns: "\<exists>tr h'. Serve h w initPkt ip = Some (tr, h')"
proof -
  obtain cs where "splitInChunks (case readTLSMessage w of Inr m \<Rightarrow> Raw m | Inl e \<Rightarrow> [])
      (WindowSize (config h)) = Some cs"
    using splitInChunks_returns by blast
  then show ?thesis
    by (auto simp: Serve_def Let_def split_beta split: option.splits sum.splits)
qed

lemma Serve_read_after_response:
  "Serve h w initPkt ip = Some (tr, h') \<Longrightarrow>
   precededBy (\<lambda>e. e = Write lConn (connectionEstablished initPkt))
     (\<lambda>e. e = ReadTLSMessage lConn \<or> e = Go_communicate lConn rConn) tr"
  by (auto simp: Serve_def Let_def split_beta split: option.splits sum.splits if_splits)

lemma Serve_write_after_go:
  "Serve h w initPkt ip = Some (tr, h') \<Longrightarrow>
   precededBy (\<lambda>e. e = Go_communicate rConn lConn) (\<lambda>e. \<exists>bs. e = Write rConn bs) tr
   \<and> precededBy (\<lambda>e. e = Go_communicate lConn rConn) (\<lambda>e. \<exists>bs. e = Write rConn bs) tr"
  by (auto simp: Serve_def Let_def split_beta split: option.splits sum.splits if_splits)

lemmas example_defs =
  NewHttpsHandler_def applyOptions_def Validate_def DefaultHttpsHandlerConfig_def
  WithWindowSize_def WithTimingRandomization_def WithAllowedPatterns_def WithExploit_def
  exampleWorld_def exampleRequest_def

lemma Atoi_examples:
  "Atoi ''8443'' = (8443, None)" "Atoi ''443'' = (443, None)"
  "Atoi ''https'' = (0, Some ErrSyntax)" "Atoi ''44x3'' = (0, Some ErrSyntax)"
  "Atoi ''9223372036854775807'' = (9223372036854775807, None)"
  "Atoi ''9223372036854775808'' = (9223372036854775807, Some ErrRange)"
  "Atoi ''-9223372036854775809'' = (- 9223372036854775808, Some ErrRange)"
  "Atoi ''9223372036854775808x'' = (0, Some ErrSyntax)"
  "Atoi ''99999999999999999999x'' = (9223372036854775807, Some ErrRange)"
  by (simp_all add: Atoi_def)

lemma connectionEstablished_example:
  "connectionEstablished (exampleRequest d p) =
     [72, 84, 84, 80, 47, 49, 46, 49, 32, 50, 48, 48, 32, 67, 111, 110, 110,
      101, 99, 116, 105, 111, 110, 32, 69, 115, 116, 97, 98, 108, 105, 115,
      104, 101, 100, 13, 10, 13, 10]"
  by (simp add: connectionEstablished_def exampleRequest_def byteOfChar_def)

lemma Serve_window_run:
  "Serve windowHandler exampleWorld (exampleRequest ''example.com'' ''8443'') ''203.0.113.7'' =
   Some ([DialTCP ''203.0.113.7'' 8443,
          LogDebug ''new connection to the server %s -> %s'',
          Write lConn (connectionEstablished (exampleRequest ''example.com'' ''8443'')),
          LogDebug ''sent connection established to %s'', ReadTLSMessage lConn,
          LogDebug ''client sent hello %d bytes'',
          Go_communicate rConn lConn, Go_communicate lConn rConn,
          LogDebug ''writing chunked client hello to %s'', LogDebug ''window-size: %d'',
          Write rConn [22, 3, 1, 0], Sleep 17, Write rConn [5, 1, 0, 0], Sleep 13,
          Write rConn [1, 0]],
         windowHandler\<lparr>port := 8443\<rparr>)"
proof -
  have cfg: "config windowHandler =
     \<lparr>Timeout = 0, WindowSize = 4, AllowedPatterns = [], Exploit = True,
      TimingRandomization = True, TimingDelayMin = 10, TimingDelayMax = 20\<rparr>"
    by (simp add: windowHandler_def example_defs)
  have split: "splitInChunks [22, 3, 1, 0, 5, 1, 0, 0, 1, 0] 4
      = Some [[22, 3, 1, 0], [5, 1, 0, 0], [1, 0]]"
    by (simp add: splitInChunks_def chunkLoop.simps)
  have wr: "writeChunks (windowHandler\<lparr>port := 8443\<rparr>) exampleWorld rConn
        [[22, 3, 1, 0], [5, 1, 0, 0], [1, 0]]
      = ([Write rConn [22, 3, 1, 0], Sleep 17, Write rConn [5, 1, 0, 0], Sleep 13,
          Write rConn [1, 0]], 10, None)"
    by (simp add: writeChunks_def writeChunksFrom.simps randomDelay_def Intn_def cfg
        exampleWorld_def)
  have ex: "dialTCP exampleWorld = None" "writeClient exampleWorld = None"
    "readTLSMessage exampleWorld
      = Inr \<lparr>Raw = [22, 3, 1, 0, 5, 1, 0, 0, 1, 0], IsClientHello = True\<rparr>"
    by (simp_all add: exampleWorld_def)
  show ?thesis
    by (subst Serve_hello [OF ex])
       (simp_all add: cfg split wr Atoi_examples exampleRequest_def splitInChunksLog_def)
qed

lemma example_reaches_hello:
  "dialTCP exampleWorld = None" "writeClient exampleWorld = None"
  "readTLSMessage exampleWorld
      = Inr \<lparr>Raw = [22, 3, 1, 0, 5, 1, 0, 0, 1, 0], IsClientHello = True\<rparr>"
  by (simp_all add: exampleWorld_def)

lemma patternHandler_config:
  "config patternHandler =
     \<lparr>Timeout = 0, WindowSize = 0, AllowedPatterns = [examplePattern], Exploit = True,
      TimingRandomization = False, TimingDelayMin = 5, TimingDelayMax = 50\<rparr>"
  by (simp add: patternHandler_def example_defs)

lemma plainHandler_config:
  "config plainHandler =
     \<lparr>Timeout = 0, WindowSize = 0, AllowedPatterns = [], Exploit = False,
      TimingRandomization = False, TimingDelayMin = 5, TimingDelayMax = 50\<rparr>"
  by (simp add: plainHandler_def example_defs)

lemma Serve_pattern_miss_run:
  "Serve patternHandler exampleWorld (exampleRequest ''other.com'' ''443'') ''203.0.113.7'' =
   Some ([DialTCP ''203.0.113.7'' 443,
          LogDebug ''new connection to the server %s -> %s'',
          Write lConn (connectionEstablished (exampleRequest ''other.com'' ''443'')),
          LogDebug ''sent connection established to %s'', ReadTLSMessage lConn,
          LogDebug ''client sent hello %d bytes'',
          Go_communicate rConn lConn, Go_communicate lConn rConn,
          LogDebug ''writing chunked client hello to %s'', LogDebug ''window-size: %d'',
          LogDebug ''using legacy fragmentation'',
          Write rConn [22], Write rConn [3, 1, 0, 5, 1, 0, 0, 1, 0]],
         patternHandler\<lparr>port := 443\<rparr>)"
proof -
  have wr: "writeChunks (patternHandler\<lparr>port := 443\<rparr>) exampleWorld rConn
        [[22], [3, 1, 0, 5, 1, 0, 0, 1, 0]]
      = ([Write rConn [22], Write rConn [3, 1, 0, 5, 1, 0, 0, 1, 0]], 10, None)"
    by (simp add: writeChunks_def writeChunksFrom.simps randomDelay_def patternHandler_config
        exampleWorld_def)
  show ?thesis
    by (subst Serve_hello [OF example_reaches_hello])
       (simp_all add: patternHandler_config splitInChunks_def wr Atoi_examples
          exampleRequest_def splitInChunksLog_def)
qed

lemma Serve_plain_run:
  "Serve plainHandler exampleWorld (exampleRequest ''example.com'' '''') ''203.0.113.7'' =
   Some ([DialTCP ''203.0.113.7'' 443,
          LogDebug ''new connection to the server %s -> %s'',
          Write lConn (connectionEstablished (exampleRequest ''example.com'' '''')),
          LogDebug ''sent connection established to %s'', ReadTLSMessage lConn,
          LogDebug ''client sent hello %d bytes'',
          Go_communicate rConn lConn, Go_communicate lConn rConn,
          LogDebug ''writing plain client hello to %s'',
          Write rConn [22, 3, 1, 0, 5, 1, 0, 0, 1, 0]],
         plainHandler)"
proof -
  have "port plainHandler = 443" by (simp add: plainHandler_def NewHttpsHandler_def Let_def)
  then show ?thesis
    by (subst Serve_hello [OF example_reaches_hello])
       (simp_all add: plainHandler_config exampleRequest_def exampleWorld_def)
qed

lemma randomDelay_cong:
  assumes "TimingRandomization (config h2) = TimingRandomization (config h1)"
    and "TimingDelayMin (config h2) = TimingDelayMin (config h1)"
    and "TimingDelayMax (config h2) = TimingDelayMax (config h1)"
  shows "randomDelay h2 r = randomDelay h1 r"
  using assms by (simp add: randomDelay_def)

lemma writeChunksFrom_cong:
  assumes "TimingRandomization (config h2) = TimingRandomization (config h1)"
    and "TimingDelayMin (config h2) = TimingDelayMin (config h1)"
    and "TimingDelayMax (config h2) = TimingDelayMax (config h1)"
  shows "writeChunksFrom h2 w cn c i tot = writeChunksFrom h1 w cn c i tot"
proof (induction "length c - i" arbitrary: i tot)
  case 0
  then show ?case by (subst (1 2) writeChunksFrom.simps) simp
next
  case (Suc n)
  then have "n = length c - Suc i" by simp
  from Suc.hyps(1) [OF this]
  have "writeChunksFrom h2 w cn c (Suc i) (tot + int (length (c ! i)))
      = writeChunksFrom h1 w cn c (Suc i) (tot + int (length (c ! i)))" .
  then show ?case
    by (subst (1 2) writeChunksFrom.simps) (simp add: randomDelay_cong [OF assms] Let_def)
qed

lemma Serve_trace_cong:
  assumes "port h2 = port h1"
    and "Exploit (config h2) = Exploit (config h1)"
    and "WindowSize (config h2) = WindowSize (config h1)"
    and "TimingRandomization (config h2) = TimingRandomization (config h1)"
    and "TimingDelayMin (config h2) = TimingDelayMin (config h1)"
    and "TimingDelayMax (config h2) = TimingDelayMax (config h1)"
  shows "map_option fst (Serve h2 w initPkt ip) = map_option fst (Serve h1 w initPkt ip)"
proof -
  have a: "writeChunks h2 w cn c = writeChunks h1 w cn c" for cn c
    unfolding writeChunks_def by (rule writeChunksFrom_cong) (simp_all add: assms)
  have b: "writeChunks (h2\<lparr>port := p\<rparr>) w cn c = writeChunks (h1\<lparr>port := p\<rparr>) w cn c"
    for p cn c
    unfolding writeChunks_def by (rule writeChunksFrom_cong) (simp_all add: assms)
  show ?thesis
    using assms(1,2,3)
    by (auto simp: Serve_def Let_def split_beta a b split: option.splits sum.splits)
qed

text \<open>
  Claim C2, as the code has it. \<^verbatim>\<open>Serve\<close> never reads \<^verbatim>\<open>AllowedPatterns\<close>. In a run
  that reaches the ClientHello: with \<^verbatim>\<open>Exploit\<close> false the ClientHello is written
  upstream by a single \<^verbatim>\<open>Write\<close>; with \<^verbatim>\<open>Exploit\<close> true the upstream writes are the
  chunks of \<^verbatim>\<open>splitInChunks\<close>, in order: all of them if no write fails, and
  otherwise exactly the chunks up to and including the first one whose write fails;
  and the calls made are the same whatever patterns the configuration holds.
\<close>

theorem Serve_fragments_by_Exploit:
  assumes "dialTCP w = None" and "writeClient w = None"
    and "readTLSMessage w = Inr m" and "IsClientHello m"
  shows "\<exists>tr h'. Serve h w initPkt ip = Some (tr, h')
     \<and> (\<not> Exploit (config h) \<longrightarrow> upstreamWrites tr = [Raw m])
     \<and> (Exploit (config h) \<longrightarrow>
          (\<exists>chunks. splitInChunks (Raw m) (WindowSize (config h)) = Some chunks
             \<and> prefix (upstreamWrites tr) chunks
             \<and> ((\<forall>k < length chunks. writeUpstream w k = None) \<longrightarrow>
                  upstreamWrites tr = chunks)
             \<and> (\<forall>k < length chunks.
                  writeUpstream w k \<noteq> None \<and> (\<forall>j < k. writeUpstream w j = None) \<longrightarrow>
                  upstreamWrites tr = take (Suc k) chunks)))
     \<and> (\<forall>patterns.
          map_option fst
            (Serve (h\<lparr>config := (config h)\<lparr>AllowedPatterns := patterns\<rparr>\<rparr>) w initPkt ip)
          = Some tr)"
proof -
  obtain tr h' where run: "Serve h w initPkt ip = Some (tr, h')"
    using Serve_returns by blast
  have plain: "upstreamWrites tr = [Raw m]" if "\<not> Exploit (config h)"
    using run that by (auto simp: Serve_hello [OF assms] Let_def upstreamWrites_append)
  have chunked: "\<exists>chunks. splitInChunks (Raw m) (WindowSize (config h)) = Some chunks
             \<and> prefix (upstreamWrites tr) chunks
             \<and> ((\<forall>k < length chunks. writeUpstream w k = None) \<longrightarrow>
                  upstreamWrites tr = chunks)
             \<and> (\<forall>k < length chunks.
                  writeUpstream w k \<noteq> None \<and> (\<forall>j < k. writeUpstream w j = None) \<longrightarrow>
                  upstreamWrites tr = take (Suc k) chunks)" if "Exploit (config h)"
  proof -
    obtain chunks where chunks: "splitInChunks (Raw m) (WindowSize (config h)) = Some chunks"
      using splitInChunks_returns by blast
    define h1 where
      "h1 = (if Port initPkt \<noteq> [] then h\<lparr>port := fst (Atoi (Port initPkt))\<rparr> else h)"
    have up: "upstreamWrites tr = upstreamWrites (fst (writeChunks h1 w rConn chunks))"
      using run that chunks
      by (auto simp: Serve_hello [OF assms] Let_def upstreamWrites_append
          upstreamWrites_splitInChunksLog h1_def)
    have "prefix (upstreamWrites tr) chunks"
      unfolding up by (rule upstreamWrites_writeChunks_prefix)
    moreover have "upstreamWrites tr = chunks"
      if "\<forall>k < length chunks. writeUpstream w k = None"
      unfolding up using that by (rule upstreamWrites_writeChunks_all)
    moreover have "upstreamWrites tr = take (Suc k) chunks"
      if "k < length chunks" "writeUpstream w k \<noteq> None" "\<forall>j < k. writeUpstream w j = None"
      for k
      unfolding up using that by (rule upstreamWrites_writeChunks_fails)
    ultimately show ?thesis using chunks by blast
  qed
  have same: "map_option fst
            (Serve (h\<lparr>config := (config h)\<lparr>AllowedPatterns := patterns\<rparr>\<rparr>) w initPkt ip)
          = Some tr" for patterns
    using Serve_trace_cong [of "h\<lparr>config := (config h)\<lparr>AllowedPatterns := patterns\<rparr>\<rparr>" h
        w initPkt ip] run by simp
  from run plain chunked same show ?thesis by blast
qed

text \<open>
  The claim as first stated wants a single write when the patterns are not empty
  and the host name matches none. With \<^verbatim>\<open>Exploit\<close> true, the one pattern
  \<^verbatim>\<open>^example\.com$\<close> and the host \<^verbatim>\<open>other.com\<close>, the ClientHello goes upstream in
  two writes.
\<close>

theorem Serve_pattern_miss_is_chunked:
  "Exploit (config patternHandler)
   \<and> AllowedPatterns (config patternHandler) = [examplePattern]
   \<and> \<not> examplePattern (Domain (exampleRequest ''other.com'' ''443''))
   \<and> map_option (\<lambda>r. upstreamWrites (fst r))
        (Serve patternHandler exampleWorld (exampleRequest ''other.com'' ''443'')
           ''203.0.113.7'')
       = Some [[22], [3, 1, 0, 5, 1, 0, 0, 1, 0]]"
proof -
  have "\<not> examplePattern (Domain (exampleRequest ''other.com'' ''443''))"
    by (simp add: examplePattern_def exampleRequest_def)
  then show ?thesis
    by (simp add: Serve_pattern_miss_run patternHandler_config)
qed

theorem Serve_fragments_by_Exploit_witness:
  "(\<exists>tr h'. Serve patternHandler exampleWorld (exampleRequest ''other.com'' ''443'')
                ''203.0.113.7'' = Some (tr, h')
      \<and> upstreamWrites tr = [[22], [3, 1, 0, 5, 1, 0, 0, 1, 0]])
   \<and> (\<exists>tr h'. Serve plainHandler exampleWorld (exampleRequest ''example.com'' '''')
                ''203.0.113.7'' = Some (tr, h')
      \<and> upstreamWrites tr = [[22, 3, 1, 0, 5, 1, 0, 0, 1, 0]])
   \<and> (\<exists>tr h'. Serve patternHandler brokenPipeWorld (exampleRequest ''other.com'' ''443'')
                ''203.0.113.7'' = Some (tr, h')
      \<and> upstreamWrites tr = [[22]])"
proof -
  have hello: "IsClientHello \<lparr>Raw = [22, 3, 1, 0, 5, 1, 0, 0, 1, 0], IsClientHello = True\<rparr>"
    by simp
  have ok: "writeUpstream exampleWorld k = None" for k by (simp add: exampleWorld_def)
  have split: "splitInChunks [22, 3, 1, 0, 5, 1, 0, 0, 1, 0] 0
      = Some [[22], [3, 1, 0, 5, 1, 0, 0, 1, 0]]"
    by (simp add: splitInChunks_def)
  from Serve_fragments_by_Exploit [OF example_reaches_hello hello, of patternHandler
      "exampleRequest ''other.com'' ''443''" "''203.0.113.7''"]
  have a: "\<exists>tr h'. Serve patternHandler exampleWorld (exampleRequest ''other.com'' ''443'')
                ''203.0.113.7'' = Some (tr, h')
      \<and> upstreamWrites tr = [[22], [3, 1, 0, 5, 1, 0, 0, 1, 0]]"
    by (auto simp: patternHandler_config split ok)
  from Serve_fragments_by_Exploit [OF example_reaches_hello hello, of plainHandler
      "exampleRequest ''example.com'' ''''" "''203.0.113.7''"]
  have b: "\<exists>tr h'. Serve plainHandler exampleWorld (exampleRequest ''example.com'' '''')
                ''203.0.113.7'' = Some (tr, h')
      \<and> upstreamWrites tr = [[22, 3, 1, 0, 5, 1, 0, 0, 1, 0]]"
    by (auto simp: plainHandler_config)
  have broken: "dialTCP brokenPipeWorld = None" "writeClient brokenPipeWorld = None"
    "readTLSMessage brokenPipeWorld
      = Inr \<lparr>Raw = [22, 3, 1, 0, 5, 1, 0, 0, 1, 0], IsClientHello = True\<rparr>"
    by (simp_all add: brokenPipeWorld_def exampleWorld_def)
  have fails: "writeUpstream brokenPipeWorld 0 \<noteq> None"
    by (simp add: brokenPipeWorld_def)
  from Serve_fragments_by_Exploit [OF broken hello, of patternHandler
      "exampleRequest ''other.com'' ''443''" "''203.0.113.7''"]
  have c: "\<exists>tr h'. Serve patternHandler brokenPipeWorld (exampleRequest ''other.com'' ''443'')
                ''203.0.113.7'' = Some (tr, h')
      \<and> upstreamWrites tr = [[22]]"
    using fails by (auto simp: patternHandler_config split)
  from a b c show ?thesis by blast
qed

lemma Serve_always_dials:
  "\<exists>tr h'. Serve h w initPkt ip = Some (tr, h')
     \<and> DialTCP ip (if Port initPkt = '''' then port h else fst (Atoi (Port initPkt))) \<in> set tr"
proof -
  obtain cs where "splitInChunks (case readTLSMessage w of Inr m \<Rightarrow> Raw m | Inl e \<Rightarrow> [])
      (WindowSize (config h)) = Some cs"
    using splitInChunks_returns by blast
  then show ?thesis
    by (auto simp: Serve_def Let_def split_beta split: option.splits sum.splits)
qed

lemma NewHttpsHandler_port: "port (NewHttpsHandler opts) = 443"
  by (simp add: NewHttpsHandler_def Let_def)

text \<open>
  Claim C6. The port dialled is the number \<^verbatim>\<open>strconv.Atoi\<close> returns for a non-empty
  \<^verbatim>\<open>Port()\<close>, and the handler's port (443 in a handler fresh from
  \<^verbatim>\<open>NewHttpsHandler\<close>) for an empty one. A \<^verbatim>\<open>Port()\<close> that does not parse is logged
  as "aborting..", but \<^verbatim>\<open>Serve\<close> does not return there: it dials port 0 and, when
  the dial succeeds, carries the tunnel through. The run for the port \<^verbatim>\<open>https\<close>:
\<close>

theorem Serve_unparsable_port_still_dials:
  "Atoi (Port (exampleRequest ''example.com'' ''https'')) = (0, Some ErrSyntax)
   \<and> map_option fst
        (Serve defaultHandler exampleWorld (exampleRequest ''example.com'' ''https'')
           ''203.0.113.7'')
     = Some [LogDebug ''error parsing port for %s aborting..'',
             DialTCP ''203.0.113.7'' 0,
             LogDebug ''new connection to the server %s -> %s'',
             Write lConn (connectionEstablished (exampleRequest ''example.com'' ''https'')),
             LogDebug ''sent connection established to %s'', ReadTLSMessage lConn,
             LogDebug ''client sent hello %d bytes'',
             Go_communicate rConn lConn, Go_communicate lConn rConn,
             LogDebug ''writing chunked client hello to %s'',
             LogDebug ''window-size: %d'', LogDebug ''using legacy fragmentation'',
             Write rConn [22], Write rConn [3, 1, 0, 5, 1, 0, 0, 1, 0]]"
proof -
  have cfg: "config defaultHandler =
     \<lparr>Timeout = 0, WindowSize = 0, AllowedPatterns = [], Exploit = True,
      TimingRandomization = False, TimingDelayMin = 5, TimingDelayMax = 50\<rparr>"
    by (simp add: defaultHandler_def example_defs)
  have wr: "writeChunks (defaultHandler\<lparr>port := 0\<rparr>) exampleWorld rConn
        [[22], [3, 1, 0, 5, 1, 0, 0, 1, 0]]
      = ([Write rConn [22], Write rConn [3, 1, 0, 5, 1, 0, 0, 1, 0]], 10, None)"
    by (simp add: writeChunks_def writeChunksFrom.simps randomDelay_def cfg exampleWorld_def)
  show ?thesis
    by (subst Serve_hello [OF example_reaches_hello])
       (simp_all add: cfg splitInChunks_def wr Atoi_examples exampleRequest_def
          splitInChunksLog_def)
qed

text \<open>
  Claim C7. In every run of \<^verbatim>\<open>Serve\<close>, successful or not: the read of the TLS
  message from the client, and the start of the forwarder that reads from the
  client, come after the write of the 200 response to the client; and every write on
  the upstream connection (a chunk or the whole ClientHello) comes after both
  \<^verbatim>\<open>go h.communicate\<close> statements. A run that reaches the ClientHello makes the
  read and starts both forwarders.
\<close>

theorem Serve_order:
  "\<exists>tr h'. Serve h w initPkt ip = Some (tr, h')
     \<and> (\<forall>j < length tr.
           tr ! j = ReadTLSMessage lConn \<or> tr ! j = Go_communicate lConn rConn \<longrightarrow>
           (\<exists>i < j. tr ! i = Write lConn (connectionEstablished initPkt)))
     \<and> (\<forall>j < length tr. \<forall>bs. tr ! j = Write rConn bs \<longrightarrow>
           (\<exists>i < j. tr ! i = Go_communicate rConn lConn)
           \<and> (\<exists>i < j. tr ! i = Go_communicate lConn rConn))
     \<and> (dialTCP w = None \<and> writeClient w = None
          \<and> (\<exists>m. readTLSMessage w = Inr m \<and> IsClientHello m) \<longrightarrow>
          ReadTLSMessage lConn \<in> set tr
          \<and> Go_communicate rConn lConn \<in> set tr \<and> Go_communicate lConn rConn \<in> set tr)"
proof -
  obtain tr h' where run: "Serve h w initPkt ip = Some (tr, h')"
    using Serve_returns by blast
  have r: "\<exists>i < j. tr ! i = Write lConn (connectionEstablished initPkt)"
    if "j < length tr"
      and "tr ! j = ReadTLSMessage lConn \<or> tr ! j = Go_communicate lConn rConn" for j
    using precededBy_nth [OF Serve_read_after_response [OF run] that] .
  have u: "(\<exists>i < j. tr ! i = Go_communicate rConn lConn)
           \<and> (\<exists>i < j. tr ! i = Go_communicate lConn rConn)"
    if "j < length tr" and "tr ! j = Write rConn bs" for j bs
  proof -
    from that(2) have q: "(\<lambda>e. \<exists>bs. e = Write rConn bs) (tr ! j)" by blast
    from precededBy_nth [OF Serve_write_after_go [OF run, THEN conjunct1] that(1) q]
      precededBy_nth [OF Serve_write_after_go [OF run, THEN conjunct2] that(1) q]
    show ?thesis by blast
  qed
  have s: "ReadTLSMessage lConn \<in> set tr
          \<and> Go_communicate rConn lConn \<in> set tr \<and> Go_communicate lConn rConn \<in> set tr"
    if "dialTCP w = None" "writeClient w = None" "readTLSMessage w = Inr m" "IsClientHello m"
    for m
    using run by (auto simp: Serve_hello [OF that] Let_def split: option.splits if_splits)
  from run r u s show ?thesis by blast
qed

theorem Serve_order_witness:
  "\<exists>tr h'. Serve windowHandler exampleWorld (exampleRequest ''example.com'' ''8443'')
              ''203.0.113.7'' = Some (tr, h')
     \<and> tr ! 4 = ReadTLSMessage lConn
     \<and> (\<exists>i < 4. tr ! i = Write lConn (connectionEstablished
                                          (exampleRequest ''example.com'' ''8443'')))
     \<and> tr ! 10 = Write rConn [22, 3, 1, 0]
     \<and> (\<exists>i < 10. tr ! i = Go_communicate rConn lConn)
     \<and> (\<exists>i < 10. tr ! i = Go_communicate lConn rConn)"
proof -
  from Serve_order [of windowHandler exampleWorld "exampleRequest ''example.com'' ''8443''"
      "''203.0.113.7''"]
  obtain tr h' where
    run: "Serve windowHandler exampleWorld (exampleRequest ''example.com'' ''8443'')
              ''203.0.113.7'' = Some (tr, h')"
    and r: "\<forall>j < length tr.
           tr ! j = ReadTLSMessage lConn \<or> tr ! j = Go_communicate lConn rConn \<longrightarrow>
           (\<exists>i < j. tr ! i = Write lConn (connectionEstablished
                                          (exampleRequest ''example.com'' ''8443'')))"
    and u: "\<forall>j < length tr. \<forall>bs. tr ! j = Write rConn bs \<longrightarrow>
           (\<exists>i < j. tr ! i = Go_communicate rConn lConn)
           \<and> (\<exists>i < j. tr ! i = Go_communicate lConn rConn)"
    by blast
  from run have len: "length tr = 15" and t4: "tr ! 4 = ReadTLSMessage lConn"
    and t9: "tr ! 10 = Write rConn [22, 3, 1, 0]"
    by (auto simp: Serve_window_run)
  from r len t4 have "\<exists>i < 4. tr ! i = Write lConn (connectionEstablished
                                          (exampleRequest ''example.com'' ''8443''))"
    by simp
  moreover from u len t9 have "(\<exists>i < 10. tr ! i = Go_communicate rConn lConn)
           \<and> (\<exists>i < 10. tr ! i = Go_communicate lConn rConn)"
    by simp
  ultimately show ?thesis using run t4 t9 by blast
qed

section \<open>Teardown by the forwarders\<close>

lemma communicateLoop_closes_nothing:
  assumes "communicateLoop h l from to k tr = Some res"
  shows "count_list res (Close cn) = count_list tr (Close cn)"
proof (rule communicateLoop.raw_induct
    [where P = "\<lambda>h l from to k tr res. count_list res (Close cn) = count_list tr (Close cn)",
      OF _ assms])
  fix loop :: "'a HttpsHandler \<Rightarrow> link \<Rightarrow> conn \<Rightarrow> conn \<Rightarrow> nat \<Rightarrow> event list \<Rightarrow> event list option"
  fix h l "from" to k tr res
  assume IH: "\<And>h l from to k tr res. loop h l from to k tr = Some res \<Longrightarrow>
      count_list res (Close cn) = count_list tr (Close cn)"
  assume "(let tr = tr @ [SetConnectionTimeout from (Timeout (config h))];
          tr = (if setConnectionTimeout l k \<noteq> None then
                  tr @ [LogDebug ''error while setting connection deadline for %s: %s'']
                else tr);
          tr = tr @ [ReadBytes from]
      in case readBytes l k of
           Inl err \<Rightarrow> Some (tr @ [LogDebug ''error reading from %s: %s''])
         | Inr bytesRead \<Rightarrow>
             (let tr = tr @ [Write to bytesRead]
              in if writeTo l k \<noteq> None then Some (tr @ [LogDebug ''error writing to %s''])
                 else loop h l from to (Suc k) tr)) = Some res"
  then show "count_list res (Close cn) = count_list tr (Close cn)"
    by (auto simp: Let_def split: sum.splits if_splits dest!: IH)
qed

lemma communicate_closes_each_once:
  "communicate h l from to = Some tr \<Longrightarrow> from \<noteq> to \<Longrightarrow>
   count_list tr (Close from) = 1 \<and> count_list tr (Close to) = 1"
  using communicateLoop_closes_nothing [of h l "from" to 0 "[]"]
  by (auto simp: communicate_def split: option.splits)

lemma fold_perform:
  "isOpen (fold perform tr s) cn = (isOpen s cn \<and> count_list tr (Close cn) = 0)
   \<and> closeCalls (fold perform tr s) cn = closeCalls s cn + count_list tr (Close cn)
   \<and> released (fold perform tr s) cn =
       released s cn + (if isOpen s cn \<and> 0 < count_list tr (Close cn) then 1 else 0)"
proof (induction tr arbitrary: s)
  case Nil
  then show ?case by simp
next
  case (Cons e tr)
  show ?case
  proof (cases e)
    case (Close c)
    then show ?thesis using Cons.IH [of "perform e s"] by auto
  qed (use Cons.IH [of s] in simp_all)
qed

lemma count_list_shuffles:
  "zs \<in> shuffles xs ys \<Longrightarrow> count_list zs x = count_list xs x + count_list ys x"
  using mset_shuffles [of zs xs ys] by (simp flip: count_mset)

lemma writeChunks_closes_nothing: "Close c' \<notin> set (fst (writeChunks h w cn c))"
proof -
  have "Close c' \<notin> set (randomDelay h r)" for r
    by (simp add: randomDelay_def Let_def)
  then have "Close c' \<notin> set (concat (map (\<lambda>k. (if 0 < k then randomDelay h (randSource w k)
       else []) @ [Write cn (c ! k)]) [0..<length c]))"
    by auto
  with set_mono_prefix [OF writeChunksFrom_prefix [of h w cn c 0 0]]
  show ?thesis by (auto simp: writeChunks_def)
qed

lemma Serve_started_closes_nothing:
  assumes "Serve h w initPkt ip = Some (ts, h')" and "Go_communicate rConn lConn \<in> set ts"
  shows "count_list ts (Close cn) = 0"
proof -
  have "Close cn \<notin> set ts"
    using assms
    by (auto simp: Serve_def Let_def split_beta writeChunks_closes_nothing
        splitInChunksLog_def split: option.splits sum.splits if_splits)
  then show ?thesis by simp
qed

text \<open>
  Claim C9. Take a tunnel whose forwarders were started, both of which exit, and any
  interleaving of the calls of \<^verbatim>\<open>Serve\<close> and of the two forwarders. After it both
  connections are closed and each was released exactly once: each forwarder calls
  \<^verbatim>\<open>Close\<close> on both connections, so each connection receives two calls, of which
  the first closes it and the second finds it closed.
\<close>

theorem tunnel_sockets_closed_once:
  assumes "Serve h w initPkt ip = Some (ts, h')"
    and "Go_communicate rConn lConn \<in> set ts" and "Go_communicate lConn rConn \<in> set ts"
    and "communicate h' l1 rConn lConn = Some t1"
    and "communicate h' l2 lConn rConn = Some t2"
    and "t12 \<in> shuffles t1 t2" and "t \<in> shuffles ts t12"
  shows "\<not> isOpen (run t established) lConn \<and> \<not> isOpen (run t established) rConn
       \<and> released (run t established) lConn = 1 \<and> released (run t established) rConn = 1
       \<and> closeCalls (run t established) lConn = 2 \<and> closeCalls (run t established) rConn = 2"
proof -
  have two: "count_list t (Close cn) = 2" for cn
  proof -
    have "count_list t1 (Close cn) = 1"
      using communicate_closes_each_once [OF assms(4)] by (cases cn) simp_all
    moreover have "count_list t2 (Close cn) = 1"
      using communicate_closes_each_once [OF assms(5)] by (cases cn) simp_all
    ultimately show ?thesis
      using count_list_shuffles [OF assms(7)] count_list_shuffles [OF assms(6)]
        Serve_started_closes_nothing [OF assms(1,2)] by simp
  qed
  have "isOpen established cn" "closeCalls established cn = 0" "released established cn = 0"
    for cn by (simp_all add: established_def)
  with fold_perform [of t established] two show ?thesis
    by (simp add: run_def)
qed

lemma communicate_eof:
  "communicate h eofLink from to =
     Some [SetConnectionTimeout from (Timeout (config h)), ReadBytes from,
           LogDebug ''error reading from %s: %s'',
           Close from, Close to, LogDebug ''closing proxy connection: %s -> %s'']"
  by (simp add: communicate_def communicateLoop.simps eofLink_def)

theorem tunnel_sockets_closed_once_witness:
  "\<exists>ts h' t1 t2.
     Serve windowHandler exampleWorld (exampleRequest ''example.com'' ''8443'')
       ''203.0.113.7'' = Some (ts, h')
     \<and> Go_communicate rConn lConn \<in> set ts \<and> Go_communicate lConn rConn \<in> set ts
     \<and> communicate h' eofLink rConn lConn = Some t1
     \<and> communicate h' eofLink lConn rConn = Some t2
     \<and> splice t1 t2 \<in> shuffles t1 t2
     \<and> splice ts (splice t1 t2) \<in> shuffles ts (splice t1 t2)
     \<and> \<not> isOpen (run (splice ts (splice t1 t2)) established) lConn
     \<and> \<not> isOpen (run (splice ts (splice t1 t2)) established) rConn
     \<and> released (run (splice ts (splice t1 t2)) established) lConn = 1
     \<and> released (run (splice ts (splice t1 t2)) established) rConn = 1
     \<and> closeCalls (run (splice ts (splice t1 t2)) established) lConn = 2
     \<and> closeCalls (run (splice ts (splice t1 t2)) established) rConn = 2"
proof -
  let ?ts = "[DialTCP ''203.0.113.7'' 8443,
          LogDebug ''new connection to the server %s -> %s'',
          Write lConn (connectionEstablished (exampleRequest ''example.com'' ''8443'')),
          LogDebug ''sent connection established to %s'', ReadTLSMessage lConn,
          LogDebug ''client sent hello %d bytes'',
          Go_communicate rConn lConn, Go_communicate lConn rConn,
          LogDebug ''writing chunked client hello to %s'', LogDebug ''window-size: %d'',
          Write rConn [22, 3, 1, 0], Sleep 17, Write rConn [5, 1, 0, 0], Sleep 13,
          Write rConn [1, 0]]"
  let ?h = "windowHandler\<lparr>port := 8443\<rparr>"
  obtain t1 where t1: "communicate ?h eofLink rConn lConn = Some t1"
    by (simp add: communicate_eof)
  obtain t2 where t2: "communicate ?h eofLink lConn rConn = Some t2"
    by (simp add: communicate_eof)
  have g: "Go_communicate rConn lConn \<in> set ?ts" "Go_communicate lConn rConn \<in> set ?ts"
    by simp_all
  have s1: "splice t1 t2 \<in> shuffles t1 t2" and s2: "splice ?ts (splice t1 t2) \<in> shuffles ?ts (splice t1 t2)"
    by (rule splice_in_shuffles)+
  from tunnel_sockets_closed_once [OF Serve_window_run g t1 t2 s1 s2]
    Serve_window_run g t1 t2 s1 s2
  show ?thesis by blast
qed

end
